theory Spec2Isabelle
  imports Complex_Main "HOL-Library.Word"
begin

unbundle bit_operations_syntax

section \<open>Basic types (llimits.h, luaconf.h)\<close>

text \<open>
  \<^verbatim>\<open>lua_Integer\<close> is \<^verbatim>\<open>long long\<close> and \<^verbatim>\<open>lua_Unsigned\<close> its unsigned version
  (\<^verbatim>\<open>LUA_INT_TYPE == LUA_INT_LONGLONG\<close>, the default): both are 64-bit words here, read
  with \<open>sint\<close> or \<open>uint\<close>.  The casts \<^verbatim>\<open>l_castS2U\<close> and \<^verbatim>\<open>l_castU2S\<close> keep the bits.
  \<^verbatim>\<open>lu_byte\<close> is \<^verbatim>\<open>unsigned char\<close>, \<^verbatim>\<open>l_mem\<close> is \<^verbatim>\<open>ptrdiff_t\<close>.
\<close>

type_synonym lua_Integer = "64 word"
type_synonym lua_Unsigned = "64 word"
type_synonym lu_byte = "8 word"
type_synonym l_mem = "64 word"
type_synonym l_uint32 = "32 word"

definition l_castS2U :: "lua_Integer \<Rightarrow> lua_Unsigned" where
  "l_castS2U i = i"

definition l_castU2S :: "lua_Unsigned \<Rightarrow> lua_Integer" where
  "l_castU2S i = i"


definition LUA_MININTEGER :: lua_Integer where
  "LUA_MININTEGER = 0x8000000000000000"

section \<open>Type tags and tagged values (lua.h, lobject.h)\<close>

definition LUA_TNIL :: lu_byte where "LUA_TNIL = 0"
definition LUA_TBOOLEAN :: lu_byte where "LUA_TBOOLEAN = 1"
definition LUA_TLIGHTUSERDATA :: lu_byte where "LUA_TLIGHTUSERDATA = 2"
definition LUA_TNUMBER :: lu_byte where "LUA_TNUMBER = 3"
definition LUA_TSTRING :: lu_byte where "LUA_TSTRING = 4"
definition LUA_TTABLE :: lu_byte where "LUA_TTABLE = 5"
definition LUA_TFUNCTION :: lu_byte where "LUA_TFUNCTION = 6"
definition LUA_TUSERDATA :: lu_byte where "LUA_TUSERDATA = 7"
definition LUA_TTHREAD :: lu_byte where "LUA_TTHREAD = 8"

definition makevariant :: "lu_byte \<Rightarrow> nat \<Rightarrow> lu_byte" where
  "makevariant t v = t OR push_bit 4 (of_nat v)"

definition BIT_ISCOLLECTABLE :: lu_byte where
  "BIT_ISCOLLECTABLE = push_bit 6 1"

definition ctb :: "lu_byte \<Rightarrow> lu_byte" where
  "ctb t = t OR BIT_ISCOLLECTABLE"

definition novariant :: "lu_byte \<Rightarrow> lu_byte" where
  "novariant t = t AND 0x0F"

definition withvariant :: "lu_byte \<Rightarrow> lu_byte" where
  "withvariant t = t AND 0x3F"

definition LUA_VNIL :: lu_byte where "LUA_VNIL = makevariant LUA_TNIL 0"
definition LUA_VEMPTY :: lu_byte where "LUA_VEMPTY = makevariant LUA_TNIL 1"
definition LUA_VABSTKEY :: lu_byte where "LUA_VABSTKEY = makevariant LUA_TNIL 2"
definition LUA_VNOTABLE :: lu_byte where "LUA_VNOTABLE = makevariant LUA_TNIL 3"
definition LUA_VFALSE :: lu_byte where "LUA_VFALSE = makevariant LUA_TBOOLEAN 0"
definition LUA_VTRUE :: lu_byte where "LUA_VTRUE = makevariant LUA_TBOOLEAN 1"
definition LUA_VNUMINT :: lu_byte where "LUA_VNUMINT = makevariant LUA_TNUMBER 0"
definition LUA_VNUMFLT :: lu_byte where "LUA_VNUMFLT = makevariant LUA_TNUMBER 1"
definition LUA_VSHRSTR :: lu_byte where "LUA_VSHRSTR = makevariant LUA_TSTRING 0"
definition LUA_VLNGSTR :: lu_byte where "LUA_VLNGSTR = makevariant LUA_TSTRING 1"
definition LUA_VLIGHTUSERDATA :: lu_byte where
  "LUA_VLIGHTUSERDATA = makevariant LUA_TLIGHTUSERDATA 0"
definition LUA_VUSERDATA :: lu_byte where "LUA_VUSERDATA = makevariant LUA_TUSERDATA 0"
definition LUA_VTABLE :: lu_byte where "LUA_VTABLE = makevariant LUA_TTABLE 0"
definition LUA_VLCL :: lu_byte where "LUA_VLCL = makevariant LUA_TFUNCTION 0"
definition LUA_VLCF :: lu_byte where "LUA_VLCF = makevariant LUA_TFUNCTION 1"
definition LUA_VCCL :: lu_byte where "LUA_VCCL = makevariant LUA_TFUNCTION 2"
definition LUA_VTHREAD :: lu_byte where "LUA_VTHREAD = makevariant LUA_TTHREAD 0"

text \<open>
  The union \<^verbatim>\<open>Value\<close> is a record with one field for each member: the source reads only
  the member that the tag \<^verbatim>\<open>tt_\<close> selects, so the members never interfere.  The float type
  \<^verbatim>\<open>lua_Number\<close> is the type parameter \<open>'n\<close>; its primitive operations are the
  \<^verbatim>\<open>luai_num*\<close> macros, collected in the record \<open>luai_num\<close> below.  Pointers are
  addresses (\<open>nat\<close>).
\<close>

record 'n Value =
  v_gc :: nat
  v_p :: nat
  v_f :: nat
  v_i :: lua_Integer
  v_n :: 'n
  v_ub :: lu_byte

record 'n TValue =
  val :: "'n Value"
  tt :: lu_byte

definition rawtt :: "'n TValue \<Rightarrow> lu_byte" where
  "rawtt o1 = tt o1"

definition ttypetag :: "'n TValue \<Rightarrow> lu_byte" where
  "ttypetag o1 = withvariant (rawtt o1)"

definition ttype :: "'n TValue \<Rightarrow> lu_byte" where
  "ttype o1 = novariant (rawtt o1)"

definition checktag :: "'n TValue \<Rightarrow> lu_byte \<Rightarrow> bool" where
  "checktag o1 t = (rawtt o1 = t)"

definition checktype :: "'n TValue \<Rightarrow> lu_byte \<Rightarrow> bool" where
  "checktype o1 t = (ttype o1 = t)"

definition ttisnil :: "'n TValue \<Rightarrow> bool" where
  "ttisnil v = checktype v LUA_TNIL"

definition ttisstrictnil :: "'n TValue \<Rightarrow> bool" where
  "ttisstrictnil v = checktag v LUA_VNIL"

definition ttisfalse :: "'n TValue \<Rightarrow> bool" where
  "ttisfalse v = checktag v LUA_VFALSE"

definition ttistrue :: "'n TValue \<Rightarrow> bool" where
  "ttistrue v = checktag v LUA_VTRUE"

definition l_isfalse :: "'n TValue \<Rightarrow> bool" where
  "l_isfalse v = (ttisfalse v \<or> ttisnil v)"

definition ttisnumber :: "'n TValue \<Rightarrow> bool" where
  "ttisnumber v = checktype v LUA_TNUMBER"

definition ttisfloat :: "'n TValue \<Rightarrow> bool" where
  "ttisfloat v = checktag v LUA_VNUMFLT"

definition ttisinteger :: "'n TValue \<Rightarrow> bool" where
  "ttisinteger v = checktag v LUA_VNUMINT"

definition ttisstring :: "'n TValue \<Rightarrow> bool" where
  "ttisstring v = checktype v LUA_TSTRING"

definition ttislcf :: "'n TValue \<Rightarrow> bool" where
  "ttislcf v = checktag v LUA_VLCF"

definition ttisCclosure :: "'n TValue \<Rightarrow> bool" where
  "ttisCclosure v = checktag v (ctb LUA_VCCL)"

definition ivalue :: "'n TValue \<Rightarrow> lua_Integer" where
  "ivalue o1 = v_i (val o1)"

definition fltvalue :: "'n TValue \<Rightarrow> 'n" where
  "fltvalue o1 = v_n (val o1)"

definition setivalue :: "'n TValue \<Rightarrow> lua_Integer \<Rightarrow> 'n TValue" where
  "setivalue obj x = obj\<lparr>val := (val obj)\<lparr>v_i := x\<rparr>, tt := LUA_VNUMINT\<rparr>"

definition setfltvalue :: "'n TValue \<Rightarrow> 'n \<Rightarrow> 'n TValue" where
  "setfltvalue obj x = obj\<lparr>val := (val obj)\<lparr>v_n := x\<rparr>, tt := LUA_VNUMFLT\<rparr>"

definition setnilvalue :: "'n TValue \<Rightarrow> 'n TValue" where
  "setnilvalue obj = obj\<lparr>tt := LUA_VNIL\<rparr>"

definition setobj :: "'n TValue \<Rightarrow> 'n TValue \<Rightarrow> 'n TValue" where
  "setobj obj1 obj2 = obj1\<lparr>val := val obj2, tt := tt obj2\<rparr>"

section \<open>Primitive float operations (luaconf.h, llimits.h)\<close>

text \<open>
  The C operations on \<^verbatim>\<open>lua_Number\<close> that the \<^verbatim>\<open>luai_num*\<close> macros and the casts expand to.
  They are parameters of the model: every theorem holds for any such operations.
\<close>

record 'n l_mathop =
  f_add :: "'n \<Rightarrow> 'n \<Rightarrow> 'n"
  f_sub :: "'n \<Rightarrow> 'n \<Rightarrow> 'n"
  f_mul :: "'n \<Rightarrow> 'n \<Rightarrow> 'n"
  f_div :: "'n \<Rightarrow> 'n \<Rightarrow> 'n"
  f_neg :: "'n \<Rightarrow> 'n"
  f_pow :: "'n \<Rightarrow> 'n \<Rightarrow> 'n"
  f_fmod :: "'n \<Rightarrow> 'n \<Rightarrow> 'n"
  f_floor :: "'n \<Rightarrow> 'n"
  f_eq :: "'n \<Rightarrow> 'n \<Rightarrow> bool"
  f_lt :: "'n \<Rightarrow> 'n \<Rightarrow> bool"
  f_le :: "'n \<Rightarrow> 'n \<Rightarrow> bool"
  cast_num :: "lua_Integer \<Rightarrow> 'n"
  cast_Integer :: "'n \<Rightarrow> lua_Integer"

definition luai_numadd :: "'n l_mathop \<Rightarrow> 'n \<Rightarrow> 'n \<Rightarrow> 'n" where
  "luai_numadd m a b = f_add m a b"

definition luai_numsub :: "'n l_mathop \<Rightarrow> 'n \<Rightarrow> 'n \<Rightarrow> 'n" where
  "luai_numsub m a b = f_sub m a b"

definition luai_nummul :: "'n l_mathop \<Rightarrow> 'n \<Rightarrow> 'n \<Rightarrow> 'n" where
  "luai_nummul m a b = f_mul m a b"

definition luai_numdiv :: "'n l_mathop \<Rightarrow> 'n \<Rightarrow> 'n \<Rightarrow> 'n" where
  "luai_numdiv m a b = f_div m a b"

definition luai_numunm :: "'n l_mathop \<Rightarrow> 'n \<Rightarrow> 'n" where
  "luai_numunm m a = f_neg m a"

definition l_floor :: "'n l_mathop \<Rightarrow> 'n \<Rightarrow> 'n" where
  "l_floor m x = f_floor m x"

definition luai_numidiv :: "'n l_mathop \<Rightarrow> 'n \<Rightarrow> 'n \<Rightarrow> 'n" where
  "luai_numidiv m a b = l_floor m (luai_numdiv m a b)"

definition luai_numpow :: "'n l_mathop \<Rightarrow> 'n \<Rightarrow> 'n \<Rightarrow> 'n" where
  "luai_numpow m a b = (if f_eq m b (cast_num m 2) then f_mul m a a else f_pow m a b)"

definition luai_nummod :: "'n l_mathop \<Rightarrow> 'n \<Rightarrow> 'n \<Rightarrow> 'n" where
  "luai_nummod m a b =
     (let r = f_fmod m a b in
      if (if f_lt m (cast_num m 0) r then f_lt m b (cast_num m 0)
          else f_lt m r (cast_num m 0) \<and> f_lt m (cast_num m 0) b)
      then f_add m r b else r)"

definition lua_numbertointeger :: "'n l_mathop \<Rightarrow> 'n \<Rightarrow> lua_Integer option" where
  "lua_numbertointeger m n =
     (if f_le m (cast_num m LUA_MININTEGER) n \<and> f_lt m n (f_neg m (cast_num m LUA_MININTEGER))
      then Some (cast_Integer m n) else None)"

section \<open>Conversions and integer operations of the virtual machine (lvm.h, lvm.c)\<close>

datatype F2Imod = F2Ieq | F2Ifloor | F2Iceil

definition LUA_FLOORN2I :: F2Imod where
  "LUA_FLOORN2I = F2Ieq"

datatype error = ErrIdivZero | ErrModZero | ApiCheck | MemoryFault | ErrMem

definition intop :: "(lua_Unsigned \<Rightarrow> lua_Unsigned \<Rightarrow> lua_Unsigned)
    \<Rightarrow> lua_Integer \<Rightarrow> lua_Integer \<Rightarrow> lua_Integer" where
  "intop f v1 v2 = l_castU2S (f (l_castS2U v1) (l_castS2U v2))"

text \<open>
  Modelled from the spec: \<^verbatim>\<open>lvm.c\<close> is missing; \<^verbatim>\<open>luaV_flttointns\<close> and
  \<^verbatim>\<open>luaV_tointegerns\<close> follow the rounding modes of \<^verbatim>\<open>lvm.h\<close> (\<^verbatim>\<open>F2Ieq\<close>: no rounding,
  accepts only integral values; \<^verbatim>\<open>F2Ifloor\<close> takes the floor; \<^verbatim>\<open>F2Iceil\<close> the ceiling) and
  end in the range test \<^verbatim>\<open>lua_numbertointeger\<close> of \<^verbatim>\<open>llimits.h\<close>; no string is converted.
\<close>

definition luaV_flttointns :: "'n l_mathop \<Rightarrow> 'n \<Rightarrow> F2Imod \<Rightarrow> lua_Integer option" where
  "luaV_flttointns m n mode =
     (let f = l_floor m n in
      if \<not> f_eq m n f then
        (if mode = F2Ieq then None
         else if mode = F2Iceil then lua_numbertointeger m (f_add m f (cast_num m 1))
         else lua_numbertointeger m f)
      else lua_numbertointeger m f)"

definition luaV_tointegerns :: "'n l_mathop \<Rightarrow> 'n TValue \<Rightarrow> F2Imod \<Rightarrow> lua_Integer option" where
  "luaV_tointegerns m obj mode =
     (if ttisfloat obj then luaV_flttointns m (fltvalue obj) mode
      else if ttisinteger obj then Some (ivalue obj)
      else None)"

definition tointegerns :: "'n l_mathop \<Rightarrow> 'n TValue \<Rightarrow> lua_Integer option" where
  "tointegerns m o1 =
     (if ttisinteger o1 then Some (ivalue o1) else luaV_tointegerns m o1 LUA_FLOORN2I)"

definition tonumberns :: "'n l_mathop \<Rightarrow> 'n TValue \<Rightarrow> 'n option" where
  "tonumberns m o1 =
     (if ttisfloat o1 then Some (fltvalue o1)
      else if ttisinteger o1 then Some (cast_num m (ivalue o1))
      else None)"

text \<open>
  Modelled from the spec: \<^verbatim>\<open>lvm.c\<close> is missing.  \<^verbatim>\<open>luaV_idiv\<close> and \<^verbatim>\<open>luaV_mod\<close> round
  towards minus infinity, the remainder taking the sign of the divisor (comments of
  \<^verbatim>\<open>intarith\<close>), on wrapping integers; a zero divisor raises an error through \<^verbatim>\<open>L\<close>
  (comments of their declarations in \<^verbatim>\<open>lvm.h\<close>).  \<^verbatim>\<open>luaV_shiftl\<close> shifts left, or right
  for a negative count, filling with zeros; \<^verbatim>\<open>luaV_modf\<close> is \<^verbatim>\<open>luai_nummod\<close>.
\<close>

definition luaV_idiv :: "lua_Integer \<Rightarrow> lua_Integer \<Rightarrow> error + lua_Integer" where
  "luaV_idiv x y = (if y = 0 then Inl ErrIdivZero else Inr (word_of_int (sint x div sint y)))"

definition luaV_mod :: "lua_Integer \<Rightarrow> lua_Integer \<Rightarrow> error + lua_Integer" where
  "luaV_mod x y = (if y = 0 then Inl ErrModZero else Inr (word_of_int (sint x mod sint y)))"

definition luaV_shiftl :: "lua_Integer \<Rightarrow> lua_Integer \<Rightarrow> lua_Integer" where
  "luaV_shiftl x y =
     (if sint y < 0 then
        (if sint y \<le> - 64 then 0 else intop (\<lambda>a b. drop_bit (unat b) a) x (- y))
      else
        (if 64 \<le> sint y then 0 else intop (\<lambda>a b. push_bit (unat b) a) x y))"

definition luaV_shiftr :: "lua_Integer \<Rightarrow> lua_Integer \<Rightarrow> lua_Integer" where
  "luaV_shiftr x y = luaV_shiftl x (intop (-) 0 y)"

definition luaV_modf :: "'n l_mathop \<Rightarrow> 'n \<Rightarrow> 'n \<Rightarrow> 'n" where
  "luaV_modf m a b = luai_nummod m a b"

section \<open>Raw arithmetic (lobject.c)\<close>

definition LUA_OPADD :: int where "LUA_OPADD = 0"
definition LUA_OPSUB :: int where "LUA_OPSUB = 1"
definition LUA_OPMUL :: int where "LUA_OPMUL = 2"
definition LUA_OPMOD :: int where "LUA_OPMOD = 3"
definition LUA_OPPOW :: int where "LUA_OPPOW = 4"
definition LUA_OPDIV :: int where "LUA_OPDIV = 5"
definition LUA_OPIDIV :: int where "LUA_OPIDIV = 6"
definition LUA_OPBAND :: int where "LUA_OPBAND = 7"
definition LUA_OPBOR :: int where "LUA_OPBOR = 8"
definition LUA_OPBXOR :: int where "LUA_OPBXOR = 9"
definition LUA_OPSHL :: int where "LUA_OPSHL = 10"
definition LUA_OPSHR :: int where "LUA_OPSHR = 11"
definition LUA_OPUNM :: int where "LUA_OPUNM = 12"
definition LUA_OPBNOT :: int where "LUA_OPBNOT = 13"

text \<open>\<^verbatim>\<open>intarith\<close>: the error of \<^verbatim>\<open>luaV_mod\<close> and \<^verbatim>\<open>luaV_idiv\<close> leaves the function.\<close>

definition intarith :: "int \<Rightarrow> lua_Integer \<Rightarrow> lua_Integer \<Rightarrow> error + lua_Integer" where
  "intarith op v1 v2 =
     (if op = LUA_OPADD then Inr (intop (+) v1 v2)
      else if op = LUA_OPSUB then Inr (intop (-) v1 v2)
      else if op = LUA_OPMUL then Inr (intop (*) v1 v2)
      else if op = LUA_OPMOD then luaV_mod v1 v2
      else if op = LUA_OPIDIV then luaV_idiv v1 v2
      else if op = LUA_OPBAND then Inr (intop (AND) v1 v2)
      else if op = LUA_OPBOR then Inr (intop (OR) v1 v2)
      else if op = LUA_OPBXOR then Inr (intop (XOR) v1 v2)
      else if op = LUA_OPSHL then Inr (luaV_shiftl v1 v2)
      else if op = LUA_OPSHR then Inr (luaV_shiftr v1 v2)
      else if op = LUA_OPUNM then Inr (intop (-) 0 v1)
      else if op = LUA_OPBNOT then Inr (intop (XOR) (NOT (l_castS2U 0)) v1)
      else Inr 0)"

definition numarith :: "'n l_mathop \<Rightarrow> int \<Rightarrow> 'n \<Rightarrow> 'n \<Rightarrow> 'n" where
  "numarith m op v1 v2 =
     (if op = LUA_OPADD then luai_numadd m v1 v2
      else if op = LUA_OPSUB then luai_numsub m v1 v2
      else if op = LUA_OPMUL then luai_nummul m v1 v2
      else if op = LUA_OPDIV then luai_numdiv m v1 v2
      else if op = LUA_OPPOW then luai_numpow m v1 v2
      else if op = LUA_OPIDIV then luai_numidiv m v1 v2
      else if op = LUA_OPUNM then luai_numunm m v1
      else if op = LUA_OPMOD then luaV_modf m v1 v2
      else cast_num m 0)"

text \<open>
  \<^verbatim>\<open>luaO_rawarith\<close> returns 1 and writes \<^verbatim>\<open>*res\<close>, or returns 0 and leaves it: the model
  returns the \<^verbatim>\<open>int\<close> with the new contents of \<^verbatim>\<open>*res\<close>.
\<close>

definition luaO_rawarith ::
  "'n l_mathop \<Rightarrow> int \<Rightarrow> 'n TValue \<Rightarrow> 'n TValue \<Rightarrow> 'n TValue \<Rightarrow> error + (int \<times> 'n TValue)" where
  "luaO_rawarith m op p1 p2 res =
     (if op = LUA_OPBAND \<or> op = LUA_OPBOR \<or> op = LUA_OPBXOR \<or>
         op = LUA_OPSHL \<or> op = LUA_OPSHR \<or> op = LUA_OPBNOT then
        (case tointegerns m p1 of
           None \<Rightarrow> Inr (0, res)
         | Some i1 \<Rightarrow>
             (case tointegerns m p2 of
                None \<Rightarrow> Inr (0, res)
              | Some i2 \<Rightarrow>
                  (case intarith op i1 i2 of
                     Inl e \<Rightarrow> Inl e
                   | Inr r \<Rightarrow> Inr (1, setivalue res r))))
      else if op = LUA_OPDIV \<or> op = LUA_OPPOW then
        (case tonumberns m p1 of
           None \<Rightarrow> Inr (0, res)
         | Some n1 \<Rightarrow>
             (case tonumberns m p2 of
                None \<Rightarrow> Inr (0, res)
              | Some n2 \<Rightarrow> Inr (1, setfltvalue res (numarith m op n1 n2))))
      else if ttisinteger p1 \<and> ttisinteger p2 then
        (case intarith op (ivalue p1) (ivalue p2) of
           Inl e \<Rightarrow> Inl e
         | Inr r \<Rightarrow> Inr (1, setivalue res r))
      else
        (case tonumberns m p1 of
           None \<Rightarrow> Inr (0, res)
         | Some n1 \<Rightarrow>
             (case tonumberns m p2 of
                None \<Rightarrow> Inr (0, res)
              | Some n2 \<Rightarrow> Inr (1, setfltvalue res (numarith m op n1 n2)))))"

text \<open>
  Exact rational arithmetic as an instance of the float operations, for evaluating the
  model on concrete inputs.
\<close>

definition rat_mathop :: "rat l_mathop" where
  "rat_mathop = \<lparr>
     f_add = (+), f_sub = (-), f_mul = (*), f_div = (/), f_neg = uminus,
     f_pow = (\<lambda>a b. if b = of_int \<lfloor>b\<rfloor> \<and> 0 \<le> b then a ^ nat \<lfloor>b\<rfloor> else 0),
     f_fmod = (\<lambda>a b. a - b * of_int (if 0 \<le> a / b then \<lfloor>a / b\<rfloor> else \<lceil>a / b\<rceil>)),
     f_floor = (\<lambda>a. of_int \<lfloor>a\<rfloor>),
     f_eq = (=), f_lt = (<), f_le = (\<le>),
     cast_num = (\<lambda>i. of_int (sint i)),
     cast_Integer = (\<lambda>a. word_of_int (if 0 \<le> a then \<lfloor>a\<rfloor> else \<lceil>a\<rceil>)) \<rparr>"

text \<open>The mathematical result reduced modulo \<open>2^64\<close> into the two's-complement range.\<close>

definition wrap64 :: "int \<Rightarrow> int" where
  "wrap64 k = (k + 2 ^ 63) mod 2 ^ 64 - 2 ^ 63"

section \<open>Strings and the string table (lobject.h, lstate.h)\<close>

text \<open>
  A string object: the fields of \<^verbatim>\<open>TString\<close> that carry its kind, its hash and its bytes
  (\<^verbatim>\<open>shrlen\<close> is the length of \<open>contents\<close> for a short string, negative for a long
  one).  Objects live in a store, a map from addresses; a pointer is an address, and
  pointer equality is equality of addresses.  The buckets of the string table are the
  lists of the addresses chained through \<^verbatim>\<open>u.hnext\<close>.
\<close>

record TString =
  ts_tt :: lu_byte
  ts_extra :: lu_byte
  ts_shrlen :: int
  ts_hash :: "32 word"
  ts_contents :: string

record stringtable =
  strt_hash :: "nat list list"
  strt_nuse :: int
  strt_size :: int

section \<open>Global state and threads (lstate.h)\<close>

text \<open>
  \<^verbatim>\<open>global_State\<close>, field by field; pointers and function pointers are addresses.  The
  embedded main thread \<^verbatim>\<open>mainth\<close> is not a field of the record: a thread holds its global
  state in \<open>l_G\<close>.
\<close>

record 'n global_State =
  frealloc :: nat
  ud :: nat
  GCtotalbytes :: l_mem
  GCdebt :: l_mem
  GCmarked :: l_mem
  GCmajorminor :: l_mem
  strt :: stringtable
  l_registry :: "'n TValue"
  nilvalue :: "'n TValue"
  seed :: "32 word"
  gcparams :: "lu_byte list"
  currentwhite :: lu_byte
  gcstate :: lu_byte
  gckind :: lu_byte
  gcstopem :: lu_byte
  gcstp :: lu_byte
  gcemergency :: lu_byte
  allgc :: nat
  sweepgc :: nat
  finobj :: nat
  gray :: nat
  grayagain :: nat
  weak :: nat
  ephemeron :: nat
  allweak :: nat
  tobefnz :: nat
  fixedgc :: nat
  survival :: nat
  old1 :: nat
  reallyold :: nat
  firstold1 :: nat
  finobjsur :: nat
  finobjold1 :: nat
  finobjrold :: nat
  twups :: nat
  panic :: nat
  memerrmsg :: nat
  tmname :: "nat list"
  mt :: "nat list"
  strcache :: "nat list list"
  warnf :: nat
  ud_warn :: nat

definition MAX_LMEM :: l_mem where
  "MAX_LMEM = push_bit 63 1 - 1"

definition gettotalbytes :: "'n global_State \<Rightarrow> l_mem" where
  "gettotalbytes g = GCtotalbytes g - GCdebt g"

text \<open>
  \<^verbatim>\<open>luaE_setdebt\<close> (lstate.c).  \<^verbatim>\<open>l_mem\<close> is signed: the comparison reads the words with
  \<open>sint\<close>.
\<close>

definition luaE_setdebt :: "'n global_State \<Rightarrow> l_mem \<Rightarrow> 'n global_State" where
  "luaE_setdebt g debt =
     (let tb = gettotalbytes g;
          debt = (if sint (MAX_LMEM - tb) < sint debt then MAX_LMEM - tb else debt)
      in g\<lparr>GCtotalbytes := tb + debt, GCdebt := debt\<rparr>)"

text \<open>
  \<^verbatim>\<open>CallInfo\<close>, \<^verbatim>\<open>CClosure\<close> and \<^verbatim>\<open>lua_State\<close>.  The stack is the array at \<^verbatim>\<open>stack.p\<close>; a
  \<^verbatim>\<open>StkId\<close> is an offset into it (\<^verbatim>\<open>top.p\<close> is \<open>top_p\<close>, \<^verbatim>\<open>ci->func.p\<close> is \<open>ci_func_p\<close>).
\<close>

record CallInfo =
  ci_func_p :: int
  ci_top_p :: int
  ci_previous :: nat
  ci_next :: nat
  callstatus :: l_uint32

record 'n CClosure =
  nupvalues :: lu_byte
  cl_gclist :: nat
  cl_f :: nat
  upvalue :: "'n TValue list"

record 'n lua_State =
  allowhook :: lu_byte
  status :: lu_byte
  top_p :: int
  l_G :: "'n global_State"
  ci :: CallInfo
  stack_last_p :: int
  stack :: "'n TValue list"
  openupval :: nat
  tbclist_p :: int
  gclist :: nat
  th_twups :: nat
  errorJmp :: nat
  base_ci :: CallInfo
  hook :: nat
  errfunc :: int
  nCcalls :: l_uint32
  oldpc :: int
  nci :: int
  basehookcount :: int
  hookcount :: int
  hookmask :: int
  ftransfer :: int
  ntransfer :: int

section \<open>Stack indices and stack operations (lapi.c)\<close>

definition LUA_REGISTRYINDEX :: int where
  "LUA_REGISTRYINDEX = - (2147483647 div 2 + 1000)"

text \<open>
  Modelled from the spec: \<^verbatim>\<open>lfunc.h\<close> and \<^verbatim>\<open>lapi.h\<close> are missing.  \<^verbatim>\<open>MAXUPVAL\<close> is the
  largest number of upvalues of a closure, 255; \<^verbatim>\<open>api_incr_top\<close> increments \<^verbatim>\<open>top.p\<close> and
  checks that it stays within \<^verbatim>\<open>ci->top.p\<close>.  A failed \<^verbatim>\<open>api_check\<close> is the error
  \<open>ApiCheck\<close>.
\<close>

definition MAXUPVAL :: int where
  "MAXUPVAL = 255"

definition ispseudo :: "int \<Rightarrow> bool" where
  "ispseudo i = (i \<le> LUA_REGISTRYINDEX)"

definition isupvalue :: "int \<Rightarrow> bool" where
  "isupvalue i = (i < LUA_REGISTRYINDEX)"

text \<open>A read of the stack array; outside the array it is a memory fault.\<close>

definition s2v :: "'n lua_State \<Rightarrow> int \<Rightarrow> error + 'n TValue" where
  "s2v L o1 =
     (if 0 \<le> o1 \<and> o1 < int (length (stack L)) then Inr (stack L ! nat o1)
      else Inl MemoryFault)"

text \<open>
  \<^verbatim>\<open>index2value\<close> returns a pointer that its callers here only read: the model returns
  the value it points to.  The C closures are read from the store \<open>mem\<close>.
\<close>

definition index2value ::
  "(nat \<rightharpoonup> 'n CClosure) \<Rightarrow> 'n lua_State \<Rightarrow> int \<Rightarrow> error + 'n TValue" where
  "index2value mem L idx =
     (if 0 < idx then
        (let o1 = ci_func_p (ci L) + idx in
         if \<not> idx \<le> ci_top_p (ci L) - (ci_func_p (ci L) + 1) then Inl ApiCheck
         else if top_p L \<le> o1 then Inr (nilvalue (l_G L))
         else s2v L o1)
      else if \<not> ispseudo idx then
        (if \<not> (idx \<noteq> 0 \<and> - idx \<le> top_p L - (ci_func_p (ci L) + 1)) then Inl ApiCheck
         else s2v L (top_p L + idx))
      else if idx = LUA_REGISTRYINDEX then Inr (l_registry (l_G L))
      else
        (let idx = LUA_REGISTRYINDEX - idx in
         if \<not> idx \<le> MAXUPVAL + 1 then Inl ApiCheck
         else
           (case s2v L (ci_func_p (ci L)) of
              Inl e \<Rightarrow> Inl e
            | Inr fn \<Rightarrow>
                if ttisCclosure fn then
                  (case mem (v_gc (val fn)) of
                     None \<Rightarrow> Inl MemoryFault
                   | Some func \<Rightarrow>
                       if idx \<le> uint (nupvalues func) then
                         (if nat (idx - 1) < length (upvalue func)
                          then Inr (upvalue func ! nat (idx - 1)) else Inl MemoryFault)
                       else Inr (nilvalue (l_G L)))
                else if \<not> ttislcf fn then Inl ApiCheck
                else Inr (nilvalue (l_G L)))))"

definition lua_gettop :: "'n lua_State \<Rightarrow> int" where
  "lua_gettop L = top_p L - (ci_func_p (ci L) + 1)"

text \<open>A write of the stack array at an offset.\<close>

definition stack_write :: "'n lua_State \<Rightarrow> int \<Rightarrow> ('n TValue \<Rightarrow> 'n TValue) \<Rightarrow> error + 'n lua_State" where
  "stack_write L o1 f =
     (if 0 \<le> o1 \<and> o1 < int (length (stack L))
      then Inr (L\<lparr>stack := (stack L)[nat o1 := f (stack L ! nat o1)]\<rparr>)
      else Inl MemoryFault)"

definition api_incr_top :: "'n lua_State \<Rightarrow> error + 'n lua_State" where
  "api_incr_top L =
     (let L' = L\<lparr>top_p := top_p L + 1\<rparr> in
      if top_p L' \<le> ci_top_p (ci L') then Inr L' else Inl ApiCheck)"

definition lua_pushvalue ::
  "(nat \<rightharpoonup> 'n CClosure) \<Rightarrow> 'n lua_State \<Rightarrow> int \<Rightarrow> error + 'n lua_State" where
  "lua_pushvalue mem L idx =
     (case index2value mem L idx of
        Inl e \<Rightarrow> Inl e
      | Inr v \<Rightarrow>
          (case stack_write L (top_p L) (\<lambda>io1. setobj io1 v) of
             Inl e \<Rightarrow> Inl e
           | Inr L' \<Rightarrow> api_incr_top L'))"

text \<open>The loop of \<^verbatim>\<open>lua_settop\<close> that fills \<open>diff\<close> new slots with nil.\<close>

fun settop_fill :: "'n lua_State \<Rightarrow> nat \<Rightarrow> error + 'n lua_State" where
  "settop_fill L 0 = Inr L"
| "settop_fill L (Suc diff) =
     (case stack_write L (top_p L) setnilvalue of
        Inl e \<Rightarrow> Inl e
      | Inr L' \<Rightarrow> settop_fill (L'\<lparr>top_p := top_p L' + 1\<rparr>) diff)"

text \<open>
  \<^verbatim>\<open>lua_settop\<close>.  \<^verbatim>\<open>luaF_close\<close> (lfunc.c, missing) runs the closing methods of the
  to-be-closed variables from a level upwards and returns the new level: it is the
  parameter \<open>close\<close>, a function of the thread and the level that may raise an error.
\<close>

definition lua_settop ::
  "('n lua_State \<Rightarrow> int \<Rightarrow> error + ('n lua_State \<times> int)) \<Rightarrow> 'n lua_State \<Rightarrow> int
     \<Rightarrow> error + 'n lua_State" where
  "lua_settop close L idx =
     (let func = ci_func_p (ci L) in
      case
        (if 0 \<le> idx then
           (if \<not> idx \<le> ci_top_p (ci L) - (func + 1) then Inl ApiCheck
            else
              (let diff = ((func + 1) + idx) - top_p L in
               if 0 < diff then
                 (case settop_fill L (nat diff) of
                    Inl e \<Rightarrow> Inl e
                  | Inr L' \<Rightarrow> Inr (L', 0))
               else Inr (L, diff)))
         else
           (if \<not> - (idx + 1) \<le> top_p L - (func + 1) then Inl ApiCheck
            else Inr (L, idx + 1)))
      of
        Inl e \<Rightarrow> Inl e
      | Inr (L1, diff) \<Rightarrow>
          (let newtop = top_p L1 + diff in
           if diff < 0 \<and> newtop \<le> tbclist_p L1 then
             (case close L1 newtop of
                Inl e \<Rightarrow> Inl e
              | Inr (L2, newtop') \<Rightarrow> Inr (L2\<lparr>top_p := newtop'\<rparr>))
           else Inr (L1\<lparr>top_p := newtop\<rparr>)))"

definition lua_toboolean ::
  "(nat \<rightharpoonup> 'n CClosure) \<Rightarrow> 'n lua_State \<Rightarrow> int \<Rightarrow> error + int" where
  "lua_toboolean mem L idx =
     (case index2value mem L idx of
        Inl e \<Rightarrow> Inl e
      | Inr o1 \<Rightarrow> Inr (if l_isfalse o1 then 0 else 1))"

text \<open>
  A global state and a thread for evaluating the model on concrete inputs: a light C
  function in slot 0 with the integer 0 and the boolean false above it, and room up to
  slot 5.
\<close>

definition example_global :: "rat global_State" where
  "example_global = \<lparr>
     frealloc = 0, ud = 0, GCtotalbytes = 1000, GCdebt = - 200, GCmarked = 0,
     GCmajorminor = 0,
     strt = \<lparr>strt_hash = [[], []], strt_nuse = 0, strt_size = 2\<rparr>,
     l_registry = \<lparr>val = \<lparr>v_gc = 16, v_p = 0, v_f = 0, v_i = 0, v_n = 0, v_ub = 0\<rparr>,
                   tt = ctb LUA_VTABLE\<rparr>,
     nilvalue = \<lparr>val = \<lparr>v_gc = 0, v_p = 0, v_f = 0, v_i = 0, v_n = 0, v_ub = 0\<rparr>,
                 tt = LUA_VNIL\<rparr>,
     seed = 0, gcparams = [], currentwhite = 0, gcstate = 0, gckind = 0, gcstopem = 0,
     gcstp = 0, gcemergency = 0, allgc = 0, sweepgc = 0, finobj = 0, gray = 0,
     grayagain = 0, weak = 0, ephemeron = 0, allweak = 0, tobefnz = 0, fixedgc = 0,
     survival = 0, old1 = 0, reallyold = 0, firstold1 = 0, finobjsur = 0, finobjold1 = 0,
     finobjrold = 0, twups = 0, panic = 0, memerrmsg = 0, tmname = [], mt = [],
     strcache = [], warnf = 0, ud_warn = 0 \<rparr>"

definition example_State :: "rat lua_State" where
  "example_State = \<lparr>
     allowhook = 1, status = 0, top_p = 3, l_G = example_global,
     ci = \<lparr>ci_func_p = 0, ci_top_p = 5, ci_previous = 0, ci_next = 0, callstatus = 0\<rparr>,
     stack_last_p = 5,
     stack = [
       \<lparr>val = \<lparr>v_gc = 0, v_p = 0, v_f = 64, v_i = 0, v_n = 0, v_ub = 0\<rparr>, tt = LUA_VLCF\<rparr>,
       \<lparr>val = \<lparr>v_gc = 0, v_p = 0, v_f = 0, v_i = 0, v_n = 0, v_ub = 0\<rparr>, tt = LUA_VNUMINT\<rparr>,
       \<lparr>val = \<lparr>v_gc = 0, v_p = 0, v_f = 0, v_i = 0, v_n = 0, v_ub = 0\<rparr>, tt = LUA_VFALSE\<rparr>,
       \<lparr>val = \<lparr>v_gc = 0, v_p = 0, v_f = 0, v_i = 9, v_n = 0, v_ub = 0\<rparr>, tt = LUA_VNIL\<rparr>,
       \<lparr>val = \<lparr>v_gc = 0, v_p = 0, v_f = 0, v_i = 0, v_n = 0, v_ub = 0\<rparr>, tt = LUA_VNIL\<rparr>],
     openupval = 0, tbclist_p = 0, gclist = 0, th_twups = 0, errorJmp = 0,
     base_ci = \<lparr>ci_func_p = 0, ci_top_p = 5, ci_previous = 0, ci_next = 0, callstatus = 0\<rparr>,
     hook = 0, errfunc = 0, nCcalls = 0, oldpc = 0, nci = 1, basehookcount = 0,
     hookcount = 0, hookmask = 0, ftransfer = 0, ntransfer = 0 \<rparr>"

section \<open>UTF-8 escapes (lobject.c)\<close>

definition UTF8BUFFSZ :: nat where
  "UTF8BUFFSZ = 8"

text \<open>\<^verbatim>\<open>cast_char\<close> of an \<^verbatim>\<open>unsigned int\<close> keeps the low eight bits.\<close>

definition cast_char :: "l_uint32 \<Rightarrow> 8 word" where
  "cast_char v = ucast v"

text \<open>
  The \<^verbatim>\<open>do ... while (x > mfb)\<close> loop of \<^verbatim>\<open>luaO_utf8esc\<close> on the state \<open>(buff, n, x, mfb)\<close>.
  It ends because \<open>x\<close> shrinks with each shift.
\<close>

function utf8esc_loop ::
  "8 word list \<Rightarrow> nat \<Rightarrow> l_uint32 \<Rightarrow> l_uint32 \<Rightarrow> 8 word list \<times> nat \<times> l_uint32 \<times> l_uint32" where
  "utf8esc_loop buff n x mfb =
     (let buff = buff[UTF8BUFFSZ - n := cast_char (0x80 OR (x AND 0x3f))];
          n = n + 1;
          x = drop_bit 6 x;
          mfb = drop_bit 1 mfb
      in if mfb < x then utf8esc_loop buff n x mfb else (buff, n, x, mfb))"
  by pat_completeness auto
termination
proof (relation "measure (\<lambda>(buff, n, x, mfb). unat x)")
  show "wf (measure (\<lambda>(buff, n, x, mfb). unat x))"
    by simp
next
  fix buff :: "8 word list" and n :: nat and x mfb :: l_uint32
  fix buff' n' x' mfb'
  assume "x' = drop_bit 6 x" and "mfb' = drop_bit 1 mfb" and "mfb' < x'"
  then have "0 < unat (drop_bit 6 x)"
    by (metis unat_gt_0 word_not_simps(1))
  moreover have "unat (drop_bit 6 x) = unat x div 64"
    by (simp add: drop_bit_eq_div unat_div)
  ultimately have "unat (drop_bit 6 x) < unat x"
    by simp
  with \<open>x' = drop_bit 6 x\<close>
  show "((buff', n', x', mfb'), (buff, n, x, mfb)) \<in> measure (\<lambda>(buff, n, x, mfb). unat x)"
    by simp
qed

definition luaO_utf8esc :: "8 word list \<Rightarrow> l_uint32 \<Rightarrow> nat \<times> 8 word list" where
  "luaO_utf8esc buff x =
     (if x < 0x80 then (1, buff[UTF8BUFFSZ - 1 := cast_char x])
      else
        (case utf8esc_loop buff 1 x 0x3f of
           (buff, n, x, mfb) \<Rightarrow>
             (n, buff[UTF8BUFFSZ - n := cast_char (push_bit 1 (NOT mfb) OR x)])))"

text \<open>
  The UTF-8 encoding, read back: the decoder that the claim about \<^verbatim>\<open>luaO_utf8esc\<close> refers
  to, written from the definition of the encoding (sequences of up to six bytes, for code
  points up to \<open>0x7FFFFFFF\<close>).  A sequence is a lead byte \<open>0xxxxxxx\<close> alone, or a lead byte
  \<open>110xxxxx\<close>, \<open>1110xxxx\<close>, \<open>11110xxx\<close>, \<open>111110xx\<close> or \<open>1111110x\<close> followed by one to five
  continuation bytes \<open>10xxxxxx\<close>; the payload bits are concatenated, most significant
  first, and a code point in a sequence longer than it needs is rejected.
\<close>

fun utf8_cont :: "8 word list \<Rightarrow> l_uint32 \<Rightarrow> l_uint32 option" where
  "utf8_cont [] acc = Some acc"
| "utf8_cont (c # cs) acc =
     (if c AND 0xC0 = 0x80 then utf8_cont cs (push_bit 6 acc OR ucast (c AND 0x3F)) else None)"

definition utf8_seq :: "8 word \<Rightarrow> 8 word list \<Rightarrow> nat \<Rightarrow> 8 word \<Rightarrow> l_uint32 \<Rightarrow> l_uint32 option" where
  "utf8_seq b cs len payload least =
     (if length cs = len then
        (case utf8_cont cs (ucast (b AND payload)) of
           None \<Rightarrow> None
         | Some c \<Rightarrow> if least \<le> c then Some c else None)
      else None)"

definition utf8_decode :: "8 word list \<Rightarrow> l_uint32 option" where
  "utf8_decode bs =
     (case bs of
        [] \<Rightarrow> None
      | b # cs \<Rightarrow>
          if b AND 0x80 = 0 then (if cs = [] then Some (ucast b) else None)
          else if b AND 0xE0 = 0xC0 then utf8_seq b cs 1 0x1F 0x80
          else if b AND 0xF0 = 0xE0 then utf8_seq b cs 2 0x0F 0x800
          else if b AND 0xF8 = 0xF0 then utf8_seq b cs 3 0x07 0x10000
          else if b AND 0xFC = 0xF8 then utf8_seq b cs 4 0x03 0x200000
          else if b AND 0xFE = 0xFC then utf8_seq b cs 5 0x01 0x4000000
          else None)"

section \<open>Character classes (lctype.h, lctype.c)\<close>


definition ALPHABIT :: nat where "ALPHABIT = 0"
definition PRINTBIT :: nat where "PRINTBIT = 2"







section \<open>Strings to numbers (lobject.c)\<close>
























section \<open>Creating strings (lstring.h; the spec, 3.3 and 4.1)\<close>

definition LUAI_MAXSHORTLEN :: nat where
  "LUAI_MAXSHORTLEN = 40"

definition LSTRREG :: int where
  "LSTRREG = - 1"

definition strisshr :: "TString \<Rightarrow> bool" where
  "strisshr ts = (0 \<le> ts_shrlen ts)"

text \<open>\<^verbatim>\<open>lmod(s, size)\<close> of lobject.h, for a size that is a power of 2.\<close>

definition lmod :: "32 word \<Rightarrow> int \<Rightarrow> nat" where
  "lmod s sz = unat (s AND (word_of_int sz - 1))"

text \<open>
  The strings of a state: the store of string objects with the next free address of the
  allocator, the string table and the seed of the global state.
\<close>

record strstate =
  st_heap :: "nat \<rightharpoonup> TString"
  st_free :: nat
  st_strt :: stringtable
  st_seed :: "32 word"

definition hashof :: "strstate \<Rightarrow> nat \<Rightarrow> 32 word" where
  "hashof st a = (case st_heap st a of None \<Rightarrow> 0 | Some ts \<Rightarrow> ts_hash ts)"

text \<open>
  Modelled from the spec: \<^verbatim>\<open>lstring.c\<close> is missing.  The operations follow section 4.1 of
  the spec and the comments of the declarations in \<^verbatim>\<open>lstring.h\<close>.  The seeded hash of the
  bytes is the parameter \<open>h\<close>.

  \<^verbatim>\<open>luaS_resize\<close> rehashes all short strings into a new bucket array: bucket \<open>i\<close> of the new
  array holds the strings of the table whose hash falls on \<open>i\<close>.
\<close>

definition luaS_resize :: "strstate \<Rightarrow> int \<Rightarrow> strstate" where
  "luaS_resize st newsize =
     st\<lparr>st_strt :=
          (st_strt st)\<lparr>
            strt_hash :=
              map (\<lambda>i. filter (\<lambda>a. lmod (hashof st a) newsize = i)
                           (concat (strt_hash (st_strt st))))
                [0..<nat newsize],
            strt_size := newsize\<rparr>\<rparr>"

text \<open>
  Modelled from the spec: the search of \<open>new_short\<close>.  The chain of the bucket of the hash
  is walked, and a string of the same hash, length and bytes is the string looked for.
\<close>

definition shr_match :: "strstate \<Rightarrow> 32 word \<Rightarrow> string \<Rightarrow> nat \<Rightarrow> bool" where
  "shr_match st hv bytes a =
     (case st_heap st a of
        None \<Rightarrow> False
      | Some ts \<Rightarrow>
          ts_hash ts = hv \<and> ts_shrlen ts = int (length bytes) \<and> ts_contents ts = bytes)"

definition shr_search :: "strstate \<Rightarrow> 32 word \<Rightarrow> string \<Rightarrow> nat option" where
  "shr_search st hv bytes =
     find (shr_match st hv bytes)
       (strt_hash (st_strt st) ! lmod hv (strt_size (st_strt st)))"

text \<open>
  Modelled from the spec: \<open>new_short\<close> (\<^verbatim>\<open>internshrstr\<close>) returns the string already in the
  table, or allocates one and links it at the head of its chain; the table grows (to twice
  its size) when \<open>nuse > size\<close>.  \<open>mem\<close> tells whether the allocator has memory: a failed
  allocation raises the memory error and changes nothing.
\<close>

definition internshrstr ::
  "(32 word \<Rightarrow> string \<Rightarrow> 32 word) \<Rightarrow> bool \<Rightarrow> strstate \<Rightarrow> string \<Rightarrow> error + (nat \<times> strstate)" where
  "internshrstr h mem st bytes =
     (let hv = h (st_seed st) bytes in
      case shr_search st hv bytes of
        Some a \<Rightarrow> Inr (a, st)
      | None \<Rightarrow>
          if \<not> mem then Inl ErrMem
          else
            (let st = (if strt_size (st_strt st) < strt_nuse (st_strt st) \<and>
                          2 * strt_size (st_strt st) < 2 ^ 31
                       then luaS_resize st (2 * strt_size (st_strt st)) else st);
                 a = st_free st;
                 ts = \<lparr>ts_tt = LUA_VSHRSTR, ts_extra = 0, ts_shrlen = int (length bytes),
                       ts_hash = hv, ts_contents = bytes\<rparr>;
                 tb = st_strt st;
                 i = lmod hv (strt_size tb)
             in Inr (a, st\<lparr>st_heap := (st_heap st)(a \<mapsto> ts),
                           st_free := a + 1,
                           st_strt := tb\<lparr>strt_hash := (strt_hash tb)[i := a # strt_hash tb ! i],
                                         strt_nuse := strt_nuse tb + 1\<rparr>\<rparr>)))"

text \<open>
  Modelled from the spec: \<open>new_long\<close> allocates a string that is not interned, its hash
  not yet computed.
\<close>

definition luaS_createlngstrobj :: "bool \<Rightarrow> strstate \<Rightarrow> string \<Rightarrow> error + (nat \<times> strstate)" where
  "luaS_createlngstrobj mem st bytes =
     (if \<not> mem then Inl ErrMem
      else
        (let a = st_free st;
             ts = \<lparr>ts_tt = LUA_VLNGSTR, ts_extra = 0, ts_shrlen = LSTRREG,
                   ts_hash = st_seed st, ts_contents = bytes\<rparr>
         in Inr (a, st\<lparr>st_heap := (st_heap st)(a \<mapsto> ts), st_free := a + 1\<rparr>)))"

text \<open>
  \<^verbatim>\<open>luaS_newlstr\<close>, from the comment of its declaration: a string of at most
  \<^verbatim>\<open>LUAI_MAXSHORTLEN\<close> bytes is interned, a longer one is created without interning.
\<close>

definition luaS_newlstr ::
  "(32 word \<Rightarrow> string \<Rightarrow> 32 word) \<Rightarrow> bool \<Rightarrow> strstate \<Rightarrow> string \<Rightarrow> error + (nat \<times> strstate)" where
  "luaS_newlstr h mem st bytes =
     (if length bytes \<le> LUAI_MAXSHORTLEN then internshrstr h mem st bytes
      else luaS_createlngstrobj mem st bytes)"

text \<open>
  Modelled from the spec: \<open>remove\<close> (\<^verbatim>\<open>luaS_remove\<close>), called by the collector when a short
  string dies, unlinks the string from its chain.
\<close>

definition luaS_remove :: "strstate \<Rightarrow> nat \<Rightarrow> strstate" where
  "luaS_remove st a =
     (let tb = st_strt st;
          i = lmod (hashof st a) (strt_size tb)
      in st\<lparr>st_strt := tb\<lparr>strt_hash := (strt_hash tb)[i := remove1 a (strt_hash tb ! i)],
                            strt_nuse := strt_nuse tb - 1\<rparr>\<rparr>)"

text \<open>
  Modelled from the spec: \<^verbatim>\<open>luaS_init\<close> creates the string table, here with \<open>n\<close> empty
  buckets.
\<close>

definition luaS_init :: "nat \<Rightarrow> 32 word \<Rightarrow> strstate" where
  "luaS_init n sd =
     \<lparr>st_heap = Map.empty, st_free = 1,
      st_strt = \<lparr>strt_hash = replicate n [], strt_nuse = 0, strt_size = int n\<rparr>,
      st_seed = sd\<rparr>"

text \<open>The strings of the table: the entries of its chains.\<close>

definition strt_strings :: "strstate \<Rightarrow> nat list" where
  "strt_strings st = concat (strt_hash (st_strt st))"

text \<open>
  Modelled from the spec: the collector frees a dead string.  A short string is first
  unlinked from the table (\<open>remove\<close>, called when a short string dies); then the object
  leaves the store.
\<close>

definition free_string :: "strstate \<Rightarrow> nat \<Rightarrow> strstate" where
  "free_string st a =
     (case st_heap st a of
        None \<Rightarrow> st
      | Some ts \<Rightarrow>
          (let st1 = (if strisshr ts then luaS_remove st a else st)
           in st1\<lparr>st_heap := (st_heap st1)(a := None)\<rparr>))"

text \<open>
  The live short strings of a state: the short string objects of the store, whether the
  table holds them or not.  A string lives from its creation until the collector frees it.
\<close>

definition short_strings :: "strstate \<Rightarrow> nat list" where
  "short_strings st =
     filter (\<lambda>a. case st_heap st a of None \<Rightarrow> False | Some ts \<Rightarrow> strisshr ts)
       [0..<st_free st]"

definition str_bytes :: "strstate \<Rightarrow> nat \<Rightarrow> string option" where
  "str_bytes st a = map_option ts_contents (st_heap st a)"

text \<open>
  The operations on the strings of a state, and a run of them: the creation of a string
  (with or without memory for it), the freeing of a string of the store by the
  collector, and the resizing of the table to a size from 1 up to the largest \<^verbatim>\<open>int\<close>.
  An operation that raises the memory error leaves the state as it was.
\<close>

datatype strop = NewLStr string bool | Free nat | Resize int

definition str_step ::
  "(32 word \<Rightarrow> string \<Rightarrow> 32 word) \<Rightarrow> strstate \<Rightarrow> strop \<Rightarrow> strstate" where
  "str_step h st op =
     (case op of
        NewLStr bytes mem \<Rightarrow>
          (case luaS_newlstr h mem st bytes of Inl e \<Rightarrow> st | Inr (a, st') \<Rightarrow> st')
      | Free a \<Rightarrow> free_string st a
      | Resize n \<Rightarrow> if 1 \<le> n \<and> n < 2 ^ 31 then luaS_resize st n else st)"

definition str_run ::
  "(32 word \<Rightarrow> string \<Rightarrow> 32 word) \<Rightarrow> strstate \<Rightarrow> strop list \<Rightarrow> strstate" where
  "str_run h st ops = foldl (str_step h) st ops"

text \<open>
  An entry \<open>a\<close> of bucket \<open>i\<close> is in order: it is a short string in the store, below the
  free address, with the hash of its bytes, and its hash falls on \<open>i\<close>.
\<close>

definition entry_ok :: "(32 word \<Rightarrow> string \<Rightarrow> 32 word) \<Rightarrow> strstate \<Rightarrow> nat \<Rightarrow> nat \<Rightarrow> bool" where
  "entry_ok h st i a =
     (a < st_free st \<and>
      (case st_heap st a of
         None \<Rightarrow> False
       | Some ts \<Rightarrow>
           ts_hash ts = h (st_seed st) (ts_contents ts) \<and>
           ts_shrlen ts = int (length (ts_contents ts)) \<and>
           length (ts_contents ts) \<le> LUAI_MAXSHORTLEN \<and>
           lmod (ts_hash ts) (strt_size (st_strt st)) = i))"

text \<open>
  The table is well formed: it has its \<open>size\<close> buckets, every entry of every bucket is in
  order, and the store is used below the free address only.
\<close>

definition strt_wf :: "(32 word \<Rightarrow> string \<Rightarrow> 32 word) \<Rightarrow> strstate \<Rightarrow> bool" where
  "strt_wf h st =
     (let tb = st_strt st in
      1 \<le> length (strt_hash tb) \<and> length (strt_hash tb) < 2 ^ 31 \<and>
      strt_size tb = int (length (strt_hash tb)) \<and>
      (\<forall>i < length (strt_hash tb). \<forall>a \<in> set (strt_hash tb ! i). entry_ok h st i a) \<and>
      (\<forall>a. a \<in> dom (st_heap st) \<longrightarrow> a < st_free st))"

text \<open>
  The table is complete: it holds every short string of the store, and each one once.
\<close>

definition strt_complete :: "strstate \<Rightarrow> bool" where
  "strt_complete st =
     (distinct (strt_strings st) \<and>
      (\<forall>a ts. st_heap st a = Some ts \<longrightarrow> strisshr ts \<longrightarrow> a \<in> set (strt_strings st)))"

text \<open>No two strings of the table have the same bytes.\<close>

definition strt_nodup :: "strstate \<Rightarrow> bool" where
  "strt_nodup st =
     (\<forall>a \<in> set (strt_strings st). \<forall>b \<in> set (strt_strings st).
        str_bytes st a = str_bytes st b \<longrightarrow> a = b)"

text \<open>The invariant of the strings of a state.\<close>

definition str_inv :: "(32 word \<Rightarrow> string \<Rightarrow> 32 word) \<Rightarrow> strstate \<Rightarrow> bool" where
  "str_inv h st = (strt_wf h st \<and> strt_complete st \<and> strt_nodup st)"

text \<open>No two live short strings have the same bytes.\<close>

definition interned :: "strstate \<Rightarrow> bool" where
  "interned st =
     (\<forall>a \<in> set (short_strings st). \<forall>b \<in> set (short_strings st).
        str_bytes st a = str_bytes st b \<longrightarrow> a = b)"

text \<open>A hash for evaluating the model on concrete inputs: the seed and the length.\<close>

definition example_hash :: "32 word \<Rightarrow> string \<Rightarrow> 32 word" where
  "example_hash sd bytes = sd XOR of_nat (length bytes)"

section \<open>Tags\<close>

lemmas LUA_OP_defs = LUA_OPADD_def LUA_OPSUB_def LUA_OPMUL_def LUA_OPMOD_def LUA_OPPOW_def
  LUA_OPDIV_def LUA_OPIDIV_def LUA_OPBAND_def LUA_OPBOR_def LUA_OPBXOR_def LUA_OPSHL_def
  LUA_OPSHR_def LUA_OPUNM_def LUA_OPBNOT_def

lemmas LUA_T_defs = LUA_TNIL_def LUA_TBOOLEAN_def LUA_TLIGHTUSERDATA_def LUA_TNUMBER_def
  LUA_TSTRING_def LUA_TTABLE_def LUA_TFUNCTION_def LUA_TUSERDATA_def LUA_TTHREAD_def

lemma tag_values:
  "LUA_VNIL = 0" "LUA_VEMPTY = 16" "LUA_VABSTKEY = 32" "LUA_VNOTABLE = 48"
  "LUA_VFALSE = 1" "LUA_VTRUE = 17" "LUA_VNUMINT = 3" "LUA_VNUMFLT = 19"
  "LUA_VSHRSTR = 4" "LUA_VLNGSTR = 20" "LUA_VLIGHTUSERDATA = 2" "LUA_VUSERDATA = 7"
  "LUA_VTABLE = 5" "LUA_VLCL = 6" "LUA_VLCF = 22" "LUA_VCCL = 38" "LUA_VTHREAD = 8"
  "BIT_ISCOLLECTABLE = 64"
  by (simp_all add: LUA_VNIL_def LUA_VEMPTY_def LUA_VABSTKEY_def LUA_VNOTABLE_def
      LUA_VFALSE_def LUA_VTRUE_def LUA_VNUMINT_def LUA_VNUMFLT_def LUA_VSHRSTR_def
      LUA_VLNGSTR_def LUA_VLIGHTUSERDATA_def LUA_VUSERDATA_def LUA_VTABLE_def LUA_VLCL_def
      LUA_VLCF_def LUA_VCCL_def LUA_VTHREAD_def BIT_ISCOLLECTABLE_def makevariant_def LUA_T_defs)

lemmas tag_tests = ttisinteger_def ttisfloat_def ttisnil_def ttisfalse_def ttistrue_def
  ttisnumber_def ttislcf_def ttisCclosure_def checktag_def checktype_def ttype_def rawtt_def
  novariant_def ctb_def

lemma ttisinteger_setivalue: "ttisinteger (setivalue res r)"
  by (simp add: ttisinteger_def checktag_def rawtt_def setivalue_def)

lemma ttisfloat_setfltvalue: "ttisfloat (setfltvalue res r)"
  by (simp add: ttisfloat_def checktag_def rawtt_def setfltvalue_def)

section \<open>Integer arithmetic wraps around\<close>

lemma sint_wrap64: "sint (word_of_int k :: 64 word) = wrap64 k"
  by (simp add: wrap64_def int_word_sint)

lemma sint_add_wrap64: "sint (v1 + v2 :: 64 word) = wrap64 (sint v1 + sint v2)"
  using sint_wrap64 [of "sint v1 + sint v2"] by simp

lemma sint_sub_wrap64: "sint (v1 - v2 :: 64 word) = wrap64 (sint v1 - sint v2)"
  using sint_wrap64 [of "sint v1 - sint v2"] by simp

lemma sint_mul_wrap64: "sint (v1 * v2 :: 64 word) = wrap64 (sint v1 * sint v2)"
  using sint_wrap64 [of "sint v1 * sint v2"] by simp

lemma sint_neg_wrap64: "sint (- v1 :: 64 word) = wrap64 (- sint v1)"
  using sint_wrap64 [of "- sint v1"] by simp

lemma intarith_ADD: "intarith LUA_OPADD v1 v2 = Inr (v1 + v2)"
  by (simp add: intarith_def intop_def l_castS2U_def l_castU2S_def)

lemma intarith_SUB: "intarith LUA_OPSUB v1 v2 = Inr (v1 - v2)"
  by (simp add: intarith_def intop_def l_castS2U_def l_castU2S_def LUA_OP_defs)

lemma intarith_MUL: "intarith LUA_OPMUL v1 v2 = Inr (v1 * v2)"
  by (simp add: intarith_def intop_def l_castS2U_def l_castU2S_def LUA_OP_defs)

lemma intarith_UNM: "intarith LUA_OPUNM v1 v2 = Inr (- v1)"
  by (simp add: intarith_def intop_def l_castS2U_def l_castU2S_def LUA_OP_defs)

lemma intarith_IDIV: "intarith LUA_OPIDIV v1 v2 = luaV_idiv v1 v2"
  by (simp add: intarith_def LUA_OP_defs)

lemma intarith_MOD: "intarith LUA_OPMOD v1 v2 = luaV_mod v1 v2"
  by (simp add: intarith_def LUA_OP_defs)

text \<open>
  Claim C2.  For all 64-bit operands, \<^verbatim>\<open>intarith\<close> with \<^verbatim>\<open>LUA_OPADD\<close>, \<^verbatim>\<open>LUA_OPSUB\<close>,
  \<^verbatim>\<open>LUA_OPMUL\<close> and \<^verbatim>\<open>LUA_OPUNM\<close> returns a value, never an error, and that value read as a
  signed integer is the mathematical sum, difference, product or negation reduced modulo
  \<open>2^64\<close> into the two's-complement range.
\<close>

theorem intarith_wraps:
  "(\<exists>r. intarith LUA_OPADD v1 v2 = Inr r \<and> sint r = wrap64 (sint v1 + sint v2)) \<and>
   (\<exists>r. intarith LUA_OPSUB v1 v2 = Inr r \<and> sint r = wrap64 (sint v1 - sint v2)) \<and>
   (\<exists>r. intarith LUA_OPMUL v1 v2 = Inr r \<and> sint r = wrap64 (sint v1 * sint v2)) \<and>
   (\<exists>r. intarith LUA_OPUNM v1 v2 = Inr r \<and> sint r = wrap64 (- sint v1))"
  by (simp add: intarith_ADD intarith_SUB intarith_MUL intarith_UNM
      sint_add_wrap64 sint_sub_wrap64 sint_mul_wrap64 sint_neg_wrap64)

section \<open>Raw arithmetic: kinds of results\<close>

lemma tonumberns_number:
  "ttisinteger p \<or> ttisfloat p \<Longrightarrow> \<exists>n. tonumberns m p = Some n"
  by (auto simp: tonumberns_def)

lemma rawarith_float_ops:
  assumes "op = LUA_OPDIV \<or> op = LUA_OPPOW"
    and "tonumberns m p1 = Some n1" and "tonumberns m p2 = Some n2"
  shows "luaO_rawarith m op p1 p2 res = Inr (1, setfltvalue res (numarith m op n1 n2))"
  using assms by (auto simp: luaO_rawarith_def LUA_OP_defs)

lemma rawarith_int_ops:
  assumes "op = LUA_OPADD \<or> op = LUA_OPSUB \<or> op = LUA_OPMUL \<or> op = LUA_OPIDIV \<or> op = LUA_OPMOD"
    and "ttisinteger p1" and "ttisinteger p2"
  shows "luaO_rawarith m op p1 p2 res =
    (case intarith op (ivalue p1) (ivalue p2) of
       Inl e \<Rightarrow> Inl e
     | Inr r \<Rightarrow> Inr (1, setivalue res r))"
  using assms by (auto simp: luaO_rawarith_def LUA_OP_defs)

lemma intarith_total_ops:
  "op = LUA_OPADD \<or> op = LUA_OPSUB \<or> op = LUA_OPMUL \<Longrightarrow> \<exists>r. intarith op v1 v2 = Inr r"
  by (auto simp: intarith_def LUA_OP_defs)

text \<open>
  Claim C1, as stated, fails: the floor division of the integer 1 by the integer 0 does
  not return; \<^verbatim>\<open>luaV_idiv\<close> raises the error.
\<close>

theorem luaO_rawarith_idiv_zero_counterexample:
  "ttisinteger \<lparr>val = \<lparr>v_gc = 0, v_p = 0, v_f = 0, v_i = 1, v_n = 0::rat, v_ub = 0\<rparr>, tt = LUA_VNUMINT\<rparr> \<and>
   ttisinteger \<lparr>val = \<lparr>v_gc = 0, v_p = 0, v_f = 0, v_i = 0, v_n = 0::rat, v_ub = 0\<rparr>, tt = LUA_VNUMINT\<rparr> \<and>
   luaO_rawarith rat_mathop LUA_OPIDIV
     \<lparr>val = \<lparr>v_gc = 0, v_p = 0, v_f = 0, v_i = 1, v_n = 0, v_ub = 0\<rparr>, tt = LUA_VNUMINT\<rparr>
     \<lparr>val = \<lparr>v_gc = 0, v_p = 0, v_f = 0, v_i = 0, v_n = 0, v_ub = 0\<rparr>, tt = LUA_VNUMINT\<rparr>
     \<lparr>val = \<lparr>v_gc = 0, v_p = 0, v_f = 0, v_i = 0, v_n = 0, v_ub = 0\<rparr>, tt = LUA_VNIL\<rparr>
   = Inl ErrIdivZero"
  by (simp add: luaO_rawarith_def intarith_def luaV_idiv_def LUA_OP_defs tag_tests ivalue_def)

text \<open>
  Claim C1, amended.  On operands that are numbers (integers or floats), \<^verbatim>\<open>luaO_rawarith\<close>
  with \<^verbatim>\<open>LUA_OPDIV\<close> or \<^verbatim>\<open>LUA_OPPOW\<close> returns 1 and writes a float, also for two integers.
  On two integers it returns 1 and writes an integer for \<^verbatim>\<open>LUA_OPADD\<close>, \<^verbatim>\<open>LUA_OPSUB\<close> and
  \<^verbatim>\<open>LUA_OPMUL\<close>, and for \<^verbatim>\<open>LUA_OPIDIV\<close> and \<^verbatim>\<open>LUA_OPMOD\<close> when the second operand is not
  zero; when it is zero, \<^verbatim>\<open>LUA_OPIDIV\<close> and \<^verbatim>\<open>LUA_OPMOD\<close> raise an error instead.
\<close>

theorem luaO_rawarith_result_kind:
  assumes "ttisinteger p1 \<or> ttisfloat p1" and "ttisinteger p2 \<or> ttisfloat p2"
  shows "(op = LUA_OPDIV \<or> op = LUA_OPPOW \<longrightarrow>
            (\<exists>r. luaO_rawarith m op p1 p2 res = Inr (1, r) \<and> ttisfloat r)) \<and>
         (ttisinteger p1 \<and> ttisinteger p2 \<longrightarrow>
            (op = LUA_OPADD \<or> op = LUA_OPSUB \<or> op = LUA_OPMUL \<longrightarrow>
               (\<exists>r. luaO_rawarith m op p1 p2 res = Inr (1, r) \<and> ttisinteger r)) \<and>
            (op = LUA_OPIDIV \<or> op = LUA_OPMOD \<longrightarrow> ivalue p2 \<noteq> 0 \<longrightarrow>
               (\<exists>r. luaO_rawarith m op p1 p2 res = Inr (1, r) \<and> ttisinteger r)) \<and>
            (ivalue p2 = 0 \<longrightarrow>
               luaO_rawarith m LUA_OPIDIV p1 p2 res = Inl ErrIdivZero \<and>
               luaO_rawarith m LUA_OPMOD p1 p2 res = Inl ErrModZero))"
proof (intro conjI impI)
  assume op: "op = LUA_OPDIV \<or> op = LUA_OPPOW"
  from assms obtain n1 n2 where "tonumberns m p1 = Some n1" "tonumberns m p2 = Some n2"
    using tonumberns_number by blast
  with op rawarith_float_ops [of op m p1 n1 p2 n2 res]
  show "\<exists>r. luaO_rawarith m op p1 p2 res = Inr (1, r) \<and> ttisfloat r"
    by (auto simp: ttisfloat_setfltvalue)
next
  assume ints: "ttisinteger p1 \<and> ttisinteger p2"
    and op: "op = LUA_OPADD \<or> op = LUA_OPSUB \<or> op = LUA_OPMUL"
  from op obtain r where "intarith op (ivalue p1) (ivalue p2) = Inr r"
    using intarith_total_ops by blast
  with ints op rawarith_int_ops [of op p1 p2 m res]
  show "\<exists>r. luaO_rawarith m op p1 p2 res = Inr (1, r) \<and> ttisinteger r"
    by (auto simp: ttisinteger_setivalue)
next
  assume ints: "ttisinteger p1 \<and> ttisinteger p2"
    and op: "op = LUA_OPIDIV \<or> op = LUA_OPMOD" and nz: "ivalue p2 \<noteq> 0"
  from op nz obtain r where "intarith op (ivalue p1) (ivalue p2) = Inr r"
    by (auto simp: intarith_IDIV intarith_MOD luaV_idiv_def luaV_mod_def)
  with ints op rawarith_int_ops [of op p1 p2 m res]
  show "\<exists>r. luaO_rawarith m op p1 p2 res = Inr (1, r) \<and> ttisinteger r"
    by (auto simp: ttisinteger_setivalue)
next
  assume ints: "ttisinteger p1 \<and> ttisinteger p2" and z: "ivalue p2 = 0"
  with rawarith_int_ops [of LUA_OPIDIV p1 p2 m res]
  show "luaO_rawarith m LUA_OPIDIV p1 p2 res = Inl ErrIdivZero"
    by (simp add: intarith_IDIV luaV_idiv_def)
next
  assume ints: "ttisinteger p1 \<and> ttisinteger p2" and z: "ivalue p2 = 0"
  with rawarith_int_ops [of LUA_OPMOD p1 p2 m res]
  show "luaO_rawarith m LUA_OPMOD p1 p2 res = Inl ErrModZero"
    by (simp add: intarith_MOD luaV_mod_def)
qed

text \<open>
  The theorem at the integers 7 and 2, for the division (a float) and the floor division
  (an integer).
\<close>

theorem luaO_rawarith_result_kind_witness:
  "ttisinteger \<lparr>val = \<lparr>v_gc = 0, v_p = 0, v_f = 0, v_i = 7, v_n = 0::rat, v_ub = 0\<rparr>, tt = LUA_VNUMINT\<rparr> \<and>
   ttisinteger \<lparr>val = \<lparr>v_gc = 0, v_p = 0, v_f = 0, v_i = 2, v_n = 0::rat, v_ub = 0\<rparr>, tt = LUA_VNUMINT\<rparr> \<and>
   (\<exists>r. luaO_rawarith rat_mathop LUA_OPDIV
     \<lparr>val = \<lparr>v_gc = 0, v_p = 0, v_f = 0, v_i = 7, v_n = 0, v_ub = 0\<rparr>, tt = LUA_VNUMINT\<rparr>
     \<lparr>val = \<lparr>v_gc = 0, v_p = 0, v_f = 0, v_i = 2, v_n = 0, v_ub = 0\<rparr>, tt = LUA_VNUMINT\<rparr>
     \<lparr>val = \<lparr>v_gc = 0, v_p = 0, v_f = 0, v_i = 0, v_n = 0, v_ub = 0\<rparr>, tt = LUA_VNIL\<rparr>
     = Inr (1, r) \<and> ttisfloat r) \<and>
   (\<exists>r. luaO_rawarith rat_mathop LUA_OPIDIV
     \<lparr>val = \<lparr>v_gc = 0, v_p = 0, v_f = 0, v_i = 7, v_n = 0, v_ub = 0\<rparr>, tt = LUA_VNUMINT\<rparr>
     \<lparr>val = \<lparr>v_gc = 0, v_p = 0, v_f = 0, v_i = 2, v_n = 0, v_ub = 0\<rparr>, tt = LUA_VNUMINT\<rparr>
     \<lparr>val = \<lparr>v_gc = 0, v_p = 0, v_f = 0, v_i = 0, v_n = 0, v_ub = 0\<rparr>, tt = LUA_VNIL\<rparr>
     = Inr (1, r) \<and> ttisinteger r)"
proof -
  let ?p1 = "\<lparr>val = \<lparr>v_gc = 0, v_p = 0, v_f = 0, v_i = 7, v_n = 0::rat, v_ub = 0\<rparr>, tt = LUA_VNUMINT\<rparr>"
  let ?p2 = "\<lparr>val = \<lparr>v_gc = 0, v_p = 0, v_f = 0, v_i = 2, v_n = 0::rat, v_ub = 0\<rparr>, tt = LUA_VNUMINT\<rparr>"
  have i1: "ttisinteger ?p1" and i2: "ttisinteger ?p2"
    by (simp_all add: tag_tests)
  have nz: "ivalue ?p2 \<noteq> 0"
    by (simp add: ivalue_def)
  from i1 i2 nz luaO_rawarith_result_kind [of ?p1 ?p2 LUA_OPDIV rat_mathop]
    luaO_rawarith_result_kind [of ?p1 ?p2 LUA_OPIDIV rat_mathop]
  show ?thesis by simp
qed

section \<open>Raw arithmetic: bitwise operations\<close>

lemma tointegerns_cases:
  "tointegerns m p =
     (if ttisinteger p then Some (ivalue p)
      else if ttisfloat p then
        (if f_eq m (fltvalue p) (l_floor m (fltvalue p))
         then lua_numbertointeger m (l_floor m (fltvalue p)) else None)
      else None)"
  by (simp add: tointegerns_def luaV_tointegerns_def luaV_flttointns_def LUA_FLOORN2I_def Let_def)

lemma rawarith_bitwise:
  assumes "op = LUA_OPBAND \<or> op = LUA_OPBOR \<or> op = LUA_OPBXOR \<or>
           op = LUA_OPSHL \<or> op = LUA_OPSHR \<or> op = LUA_OPBNOT"
  shows "luaO_rawarith m op p1 p2 res =
    (case tointegerns m p1 of
       None \<Rightarrow> Inr (0, res)
     | Some i1 \<Rightarrow>
        (case tointegerns m p2 of
           None \<Rightarrow> Inr (0, res)
         | Some i2 \<Rightarrow>
            (case intarith op i1 i2 of
               Inl e \<Rightarrow> Inl e
             | Inr r \<Rightarrow> Inr (1, setivalue res r))))"
  using assms by (simp add: luaO_rawarith_def)

lemma intarith_bitwise_total:
  assumes "op = LUA_OPBAND \<or> op = LUA_OPBOR \<or> op = LUA_OPBXOR \<or>
           op = LUA_OPSHL \<or> op = LUA_OPSHR \<or> op = LUA_OPBNOT"
  shows "\<exists>r. intarith op i1 i2 = Inr r"
  using assms by (auto simp: intarith_def LUA_OP_defs)

text \<open>
  Claim C3.  With a bitwise operation, \<^verbatim>\<open>luaO_rawarith\<close> returns 1 exactly when both
  operands convert to integers without string coercion in the mode \<^verbatim>\<open>F2Ieq\<close>; otherwise
  it returns 0 and leaves \<^verbatim>\<open>*res\<close> as it was.  An integer always converts, to itself; a
  float converts only when it equals its floor (and then when the floor is in the integer
  range); no other value converts.
\<close>

theorem luaO_rawarith_bitwise_integers:
  assumes "op = LUA_OPBAND \<or> op = LUA_OPBOR \<or> op = LUA_OPBXOR \<or>
           op = LUA_OPSHL \<or> op = LUA_OPSHR \<or> op = LUA_OPBNOT"
  shows "((\<exists>r. luaO_rawarith m op p1 p2 res = Inr (1, r)) \<longleftrightarrow>
            (\<exists>i1 i2. tointegerns m p1 = Some i1 \<and> tointegerns m p2 = Some i2)) \<and>
         (tointegerns m p1 = None \<or> tointegerns m p2 = None \<longrightarrow>
            luaO_rawarith m op p1 p2 res = Inr (0, res)) \<and>
         (ttisinteger p \<longrightarrow> tointegerns m p = Some (ivalue p)) \<and>
         (ttisfloat p \<longrightarrow> tointegerns m p =
            (if f_eq m (fltvalue p) (l_floor m (fltvalue p))
             then lua_numbertointeger m (l_floor m (fltvalue p)) else None)) \<and>
         (\<not> ttisinteger p \<and> \<not> ttisfloat p \<longrightarrow> tointegerns m p = None)"
proof (intro conjI impI)
  show "(\<exists>r. luaO_rawarith m op p1 p2 res = Inr (1, r)) \<longleftrightarrow>
        (\<exists>i1 i2. tointegerns m p1 = Some i1 \<and> tointegerns m p2 = Some i2)"
  proof
    assume "\<exists>r. luaO_rawarith m op p1 p2 res = Inr (1, r)"
    with assms rawarith_bitwise [of op m p1 p2 res]
    show "\<exists>i1 i2. tointegerns m p1 = Some i1 \<and> tointegerns m p2 = Some i2"
      by (auto split: option.splits)
  next
    assume "\<exists>i1 i2. tointegerns m p1 = Some i1 \<and> tointegerns m p2 = Some i2"
    then obtain i1 i2 where c: "tointegerns m p1 = Some i1" "tointegerns m p2 = Some i2"
      by blast
    from assms obtain r where "intarith op i1 i2 = Inr r"
      using intarith_bitwise_total by blast
    with c assms rawarith_bitwise [of op m p1 p2 res]
    show "\<exists>r. luaO_rawarith m op p1 p2 res = Inr (1, r)"
      by simp
  qed
next
  assume "tointegerns m p1 = None \<or> tointegerns m p2 = None"
  with assms rawarith_bitwise [of op m p1 p2 res]
  show "luaO_rawarith m op p1 p2 res = Inr (0, res)"
    by (auto split: option.splits)
next
  assume "ttisinteger p"
  then show "tointegerns m p = Some (ivalue p)"
    by (simp add: tointegerns_cases)
next
  assume "ttisfloat p"
  then show "tointegerns m p =
      (if f_eq m (fltvalue p) (l_floor m (fltvalue p))
       then lua_numbertointeger m (l_floor m (fltvalue p)) else None)"
    by (simp add: tointegerns_cases tag_tests tag_values)
next
  assume "\<not> ttisinteger p \<and> \<not> ttisfloat p"
  then show "tointegerns m p = None"
    by (simp add: tointegerns_cases)
qed

text \<open>
  The theorem at \<^verbatim>\<open>LUA_OPBAND\<close> on the integer 6 and the float 7/2, which does not convert,
  and on the integer 6 and the float 3, which does.
\<close>

theorem luaO_rawarith_bitwise_integers_witness:
  "luaO_rawarith rat_mathop LUA_OPBAND
     \<lparr>val = \<lparr>v_gc = 0, v_p = 0, v_f = 0, v_i = 6, v_n = 0, v_ub = 0\<rparr>, tt = LUA_VNUMINT\<rparr>
     \<lparr>val = \<lparr>v_gc = 0, v_p = 0, v_f = 0, v_i = 0, v_n = 7 / 2, v_ub = 0\<rparr>, tt = LUA_VNUMFLT\<rparr>
     \<lparr>val = \<lparr>v_gc = 0, v_p = 0, v_f = 0, v_i = 0, v_n = 0, v_ub = 0\<rparr>, tt = LUA_VNIL\<rparr>
   = Inr (0, \<lparr>val = \<lparr>v_gc = 0, v_p = 0, v_f = 0, v_i = 0, v_n = 0, v_ub = 0\<rparr>, tt = LUA_VNIL\<rparr>) \<and>
   (\<exists>r. luaO_rawarith rat_mathop LUA_OPBAND
     \<lparr>val = \<lparr>v_gc = 0, v_p = 0, v_f = 0, v_i = 6, v_n = 0, v_ub = 0\<rparr>, tt = LUA_VNUMINT\<rparr>
     \<lparr>val = \<lparr>v_gc = 0, v_p = 0, v_f = 0, v_i = 0, v_n = 3, v_ub = 0\<rparr>, tt = LUA_VNUMFLT\<rparr>
     \<lparr>val = \<lparr>v_gc = 0, v_p = 0, v_f = 0, v_i = 0, v_n = 0, v_ub = 0\<rparr>, tt = LUA_VNIL\<rparr>
   = Inr (1, r))"
proof -
  let ?p1 = "\<lparr>val = \<lparr>v_gc = 0, v_p = 0, v_f = 0, v_i = 6, v_n = 0::rat, v_ub = 0\<rparr>, tt = LUA_VNUMINT\<rparr>"
  let ?h = "\<lparr>val = \<lparr>v_gc = 0, v_p = 0, v_f = 0, v_i = 0, v_n = 7 / 2 :: rat, v_ub = 0\<rparr>, tt = LUA_VNUMFLT\<rparr>"
  let ?t = "\<lparr>val = \<lparr>v_gc = 0, v_p = 0, v_f = 0, v_i = 0, v_n = 3 :: rat, v_ub = 0\<rparr>, tt = LUA_VNUMFLT\<rparr>"
  have h: "tointegerns rat_mathop ?h = None"
    by code_simp
  have t: "tointegerns rat_mathop ?t = Some 3"
    by code_simp
  have p: "tointegerns rat_mathop ?p1 = Some 6"
    by code_simp
  from h p t luaO_rawarith_bitwise_integers [of LUA_OPBAND rat_mathop ?p1 ?h]
    luaO_rawarith_bitwise_integers [of LUA_OPBAND rat_mathop ?p1 ?t]
  show ?thesis by simp
qed

section \<open>The debt of the collector\<close>

lemma sint_MAX_LMEM: "sint MAX_LMEM = 2 ^ 63 - 1"
  by (simp add: MAX_LMEM_def)

lemma setdebt_total: "gettotalbytes (luaE_setdebt g d) = gettotalbytes g"
  by (simp add: luaE_setdebt_def gettotalbytes_def Let_def)

lemma setdebt_debt:
  "GCdebt (luaE_setdebt g d) =
     (if sint (MAX_LMEM - gettotalbytes g) < sint d then MAX_LMEM - gettotalbytes g else d)"
  by (simp add: luaE_setdebt_def Let_def)

lemma setdebt_clamp:
  "sint (MAX_LMEM - gettotalbytes g) < sint d \<Longrightarrow> GCtotalbytes (luaE_setdebt g d) = MAX_LMEM"
  by (simp add: luaE_setdebt_def Let_def)

lemma setdebt_frame:
  "luaE_setdebt g d =
     g\<lparr>GCtotalbytes := GCtotalbytes (luaE_setdebt g d), GCdebt := GCdebt (luaE_setdebt g d)\<rparr>"
  by (simp add: luaE_setdebt_def Let_def)

lemma sint_MAX_sub:
  assumes "0 < sint (tb :: 64 word)"
  shows "sint (MAX_LMEM - tb) = 2 ^ 63 - 1 - sint tb"
proof -
  have "sint tb < 2 ^ 63" using sint_lt [of tb] by simp
  with assms have r: "- (2 ^ 63) \<le> 2 ^ 63 - 1 - sint tb \<and> 2 ^ 63 - 1 - sint tb < (2 ^ 63 :: int)"
    by simp
  have "sint (MAX_LMEM - tb) = wrap64 (sint MAX_LMEM - sint tb)"
    by (rule sint_sub_wrap64)
  also have "\<dots> = 2 ^ 63 - 1 - sint tb"
    using r by (simp add: wrap64_def sint_MAX_LMEM)
  finally show ?thesis .
qed

lemma setdebt_no_overflow:
  assumes "0 < sint (gettotalbytes g)"
  shows "sint (GCtotalbytes (luaE_setdebt g d)) =
    sint (gettotalbytes g) + sint (GCdebt (luaE_setdebt g d))"
proof -
  let ?tb = "gettotalbytes g"
  let ?d = "GCdebt (luaE_setdebt g d)"
  have tb: "sint ?tb < 2 ^ 63" using sint_lt [of ?tb] by simp
  have dge: "- (2 ^ 63) \<le> sint ?d" using sint_ge [of ?d] by simp
  have dle: "sint ?d \<le> 2 ^ 63 - 1 - sint ?tb"
    using sint_MAX_sub [OF assms] by (simp add: setdebt_debt)
  have eq: "GCtotalbytes (luaE_setdebt g d) = ?tb + ?d"
    by (simp add: luaE_setdebt_def Let_def)
  have "sint (?tb + ?d) = wrap64 (sint ?tb + sint ?d)"
    by (rule sint_add_wrap64)
  also have "\<dots> = sint ?tb + sint ?d"
    using assms tb dge dle by (simp add: wrap64_def)
  finally show ?thesis using eq by simp
qed

text \<open>
  Claim C9.  \<^verbatim>\<open>luaE_setdebt\<close> leaves \<^verbatim>\<open>gettotalbytes(g)\<close> as it was and sets \<^verbatim>\<open>GCdebt\<close> to
  the debt given, except when that debt is above \<^verbatim>\<open>MAX_LMEM - gettotalbytes(g)\<close>: then
  the debt is reduced to that bound and \<^verbatim>\<open>GCtotalbytes\<close> becomes \<^verbatim>\<open>MAX_LMEM\<close>.  Under the
  function's assertion that the total is positive no signed addition overflows.  Only
  the fields \<^verbatim>\<open>GCtotalbytes\<close> and \<^verbatim>\<open>GCdebt\<close> change.
\<close>

theorem luaE_setdebt_keeps_total:
  "gettotalbytes (luaE_setdebt g d) = gettotalbytes g \<and>
   GCdebt (luaE_setdebt g d) =
     (if sint (MAX_LMEM - gettotalbytes g) < sint d then MAX_LMEM - gettotalbytes g else d) \<and>
   (sint (MAX_LMEM - gettotalbytes g) < sint d \<longrightarrow>
      GCtotalbytes (luaE_setdebt g d) = MAX_LMEM) \<and>
   (0 < sint (gettotalbytes g) \<longrightarrow>
      sint (GCtotalbytes (luaE_setdebt g d)) =
        sint (gettotalbytes g) + sint (GCdebt (luaE_setdebt g d))) \<and>
   luaE_setdebt g d =
     g\<lparr>GCtotalbytes := GCtotalbytes (luaE_setdebt g d), GCdebt := GCdebt (luaE_setdebt g d)\<rparr>"
  using setdebt_total [of g d] setdebt_debt [of g d] setdebt_clamp [of g d]
    setdebt_no_overflow [of g d] setdebt_frame [of g d]
  by blast

text \<open>
  The theorem at the example state, whose total is 1200, for the debt \<^verbatim>\<open>MAX_LMEM\<close> (clamped)
  and the debt 5 (not clamped).
\<close>

theorem luaE_setdebt_keeps_total_witness:
  "sint (MAX_LMEM - gettotalbytes example_global) < sint MAX_LMEM \<and>
   0 < sint (gettotalbytes example_global) \<and>
   GCtotalbytes (luaE_setdebt example_global MAX_LMEM) = MAX_LMEM \<and>
   sint (GCtotalbytes (luaE_setdebt example_global 5)) = 1205 \<and>
   sint (GCdebt (luaE_setdebt example_global 5)) = 5"
proof -
  have t: "gettotalbytes example_global = 1200"
    by (simp add: gettotalbytes_def example_global_def)
  have c: "sint (MAX_LMEM - gettotalbytes example_global) < sint MAX_LMEM"
    by (simp add: t MAX_LMEM_def)
  have n: "\<not> sint (MAX_LMEM - gettotalbytes example_global) < sint (5 :: 64 word)"
    by (simp add: t MAX_LMEM_def)
  from t c n luaE_setdebt_keeps_total [of example_global MAX_LMEM]
    luaE_setdebt_keeps_total [of example_global 5]
  show ?thesis by simp
qed

section \<open>Stack operations of the API\<close>

lemma stack_write_ok:
  "0 \<le> o1 \<Longrightarrow> o1 < int (length (stack L)) \<Longrightarrow>
   stack_write L o1 f = Inr (L\<lparr>stack := (stack L)[nat o1 := f (stack L ! nat o1)]\<rparr>)"
  by (simp add: stack_write_def)

lemma api_incr_top_ok:
  "top_p L < ci_top_p (ci L) \<Longrightarrow> api_incr_top L = Inr (L\<lparr>top_p := top_p L + 1\<rparr>)"
  by (simp add: api_incr_top_def Let_def)

lemma lua_pushvalue_ok:
  assumes "index2value mem L idx = Inr v"
    and "0 \<le> top_p L" and "top_p L < int (length (stack L))"
    and "top_p L < ci_top_p (ci L)"
  shows "lua_pushvalue mem L idx =
    Inr (L\<lparr>stack := (stack L)[nat (top_p L) := setobj (stack L ! nat (top_p L)) v],
           top_p := top_p L + 1\<rparr>)"
  using assms by (simp add: lua_pushvalue_def stack_write_ok api_incr_top_ok)

lemma lua_settop_pop1:
  assumes "ci_func_p (ci L) + 1 < top_p L" and "tbclist_p L < top_p L - 1"
  shows "lua_settop close L (- 2) = Inr (L\<lparr>top_p := top_p L - 1\<rparr>)"
  using assms by (simp add: lua_settop_def Let_def)

text \<open>
  Claim C6.  In a thread whose frame is well formed (the function slot is in the stack
  below the top, the frame's limit is within the stack array, and the to-be-closed list
  is below the top) and has room for one more slot, for every index \<open>idx\<close> that
  \<^verbatim>\<open>index2value\<close> accepts, \<^verbatim>\<open>lua_pushvalue(L, idx)\<close> followed by \<^verbatim>\<open>lua_settop(L, -2)\<close> succeeds
  and leaves the stack height, every slot of the stack (the slots below the top) and every
  other field of the thread as they were.  In between, the height is one more and the top
  slot holds the copy; afterwards the copy stays only in the free slot at the old top.
\<close>

theorem lua_pushvalue_pop:
  assumes idx: "index2value mem L idx = Inr v"
    and func: "0 \<le> ci_func_p (ci L)" "ci_func_p (ci L) < top_p L"
    and room: "top_p L < ci_top_p (ci L)" "ci_top_p (ci L) \<le> int (length (stack L))"
    and tbc: "tbclist_p L < top_p L"
  shows "\<exists>L1 L2. lua_pushvalue mem L idx = Inr L1 \<and> lua_settop close L1 (- 2) = Inr L2 \<and>
           lua_gettop L1 = lua_gettop L + 1 \<and> index2value mem L1 (- 1) = Inr (setobj (stack L ! nat (top_p L)) v) \<and>
           lua_gettop L2 = lua_gettop L \<and> top_p L2 = top_p L \<and>
           (\<forall>i. 0 \<le> i \<and> i < top_p L \<longrightarrow> s2v L2 i = s2v L i) \<and>
           L2 = L\<lparr>stack := (stack L)[nat (top_p L) := setobj (stack L ! nat (top_p L)) v]\<rparr>"
proof -
  let ?L1 = "L\<lparr>stack := (stack L)[nat (top_p L) := setobj (stack L ! nat (top_p L)) v],
           top_p := top_p L + 1\<rparr>"
  let ?L2 = "L\<lparr>stack := (stack L)[nat (top_p L) := setobj (stack L ! nat (top_p L)) v]\<rparr>"
  from func room have t: "0 \<le> top_p L" "top_p L < int (length (stack L))"
    by simp_all
  have p: "lua_pushvalue mem L idx = Inr ?L1"
    using idx t room by (simp add: lua_pushvalue_ok)
  have "lua_settop close ?L1 (- 2) = Inr (?L1\<lparr>top_p := top_p ?L1 - 1\<rparr>)"
    using func tbc by (intro lua_settop_pop1) simp_all
  then have s: "lua_settop close ?L1 (- 2) = Inr ?L2"
    by simp
  have g1: "lua_gettop ?L1 = lua_gettop L + 1"
    by (simp add: lua_gettop_def)
  have r: "index2value mem ?L1 (- 1) = Inr (setobj (stack L ! nat (top_p L)) v)"
    using func t by (simp add: index2value_def ispseudo_def LUA_REGISTRYINDEX_def s2v_def)
  have g2: "lua_gettop ?L2 = lua_gettop L"
    by (simp add: lua_gettop_def)
  have sl: "\<forall>i. 0 \<le> i \<and> i < top_p L \<longrightarrow> s2v ?L2 i = s2v L i"
    using t by (auto simp: s2v_def)
  from p s g1 r g2 sl show ?thesis
    by (intro exI [of _ ?L1] exI [of _ ?L2]) simp
qed

lemma l_isfalse_tag: "l_isfalse v \<longleftrightarrow> tt v AND 0x0F = 0 \<or> tt v = 1"
  by (auto simp: l_isfalse_def tag_tests tag_values LUA_T_defs)

text \<open>
  Claim C5.  For the value \<open>v\<close> at an index, \<^verbatim>\<open>lua_toboolean\<close> returns 0 exactly when \<open>v\<close>
  is nil (its basic type is \<^verbatim>\<open>LUA_TNIL\<close>) or the boolean false (its tag is \<^verbatim>\<open>LUA_VFALSE\<close>),
  and 1 for every other value; in particular for every integer, float and string,
  whatever its contents.
\<close>

theorem lua_toboolean_false_iff:
  assumes "index2value mem L idx = Inr v"
  shows "(lua_toboolean mem L idx = Inr 0 \<longleftrightarrow> ttisnil v \<or> ttisfalse v) \<and>
         (lua_toboolean mem L idx = Inr 1 \<longleftrightarrow> \<not> (ttisnil v \<or> ttisfalse v)) \<and>
         (ttisnil v \<longleftrightarrow> novariant (tt v) = LUA_TNIL) \<and>
         (ttisfalse v \<longleftrightarrow> tt v = LUA_VFALSE) \<and>
         (ttisinteger v \<or> ttisfloat v \<or> ttisstring v \<longrightarrow> lua_toboolean mem L idx = Inr 1)"
  using assms
  by (auto simp: lua_toboolean_def l_isfalse_def tag_tests tag_values LUA_T_defs ttisstring_def)

lemmas example_simps = example_State_def example_global_def index2value_def s2v_def
  ispseudo_def LUA_REGISTRYINDEX_def

text \<open>
  The theorem at the example thread: index 1 holds the integer 0, which is true, and
  index 2 the boolean false.
\<close>

theorem lua_toboolean_false_iff_witness:
  "index2value Map.empty example_State 1 =
     Inr \<lparr>val = \<lparr>v_gc = 0, v_p = 0, v_f = 0, v_i = 0, v_n = 0, v_ub = 0\<rparr>, tt = LUA_VNUMINT\<rparr> \<and>
   lua_toboolean Map.empty example_State 1 = Inr 1 \<and>
   index2value Map.empty example_State 2 =
     Inr \<lparr>val = \<lparr>v_gc = 0, v_p = 0, v_f = 0, v_i = 0, v_n = 0, v_ub = 0\<rparr>, tt = LUA_VFALSE\<rparr> \<and>
   lua_toboolean Map.empty example_State 2 = Inr 0"
proof -
  let ?i = "\<lparr>val = \<lparr>v_gc = 0, v_p = 0, v_f = 0, v_i = 0, v_n = 0::rat, v_ub = 0\<rparr>, tt = LUA_VNUMINT\<rparr>"
  let ?f = "\<lparr>val = \<lparr>v_gc = 0, v_p = 0, v_f = 0, v_i = 0, v_n = 0::rat, v_ub = 0\<rparr>, tt = LUA_VFALSE\<rparr>"
  have i: "index2value Map.empty example_State 1 = Inr ?i"
    by (simp add: example_simps)
  have f: "index2value Map.empty example_State 2 = Inr ?f"
    by (simp add: example_simps)
  have ti: "ttisinteger ?i" and tf: "ttisfalse ?f"
    by (simp_all add: tag_tests)
  from i f ti tf lua_toboolean_false_iff [OF i] lua_toboolean_false_iff [OF f]
  show ?thesis by simp
qed

text \<open>The theorem at the example thread, pushing the value at index 1.\<close>

theorem lua_pushvalue_pop_witness:
  "index2value Map.empty example_State 1 =
     Inr \<lparr>val = \<lparr>v_gc = 0, v_p = 0, v_f = 0, v_i = 0, v_n = 0, v_ub = 0\<rparr>, tt = LUA_VNUMINT\<rparr> \<and>
   ci_func_p (ci example_State) < top_p example_State \<and>
   top_p example_State < ci_top_p (ci example_State) \<and>
   tbclist_p example_State < top_p example_State \<and>
   (\<exists>L1 L2. lua_pushvalue Map.empty example_State 1 = Inr L1 \<and>
      lua_settop (\<lambda>L level. Inl MemoryFault) L1 (- 2) = Inr L2 \<and>
      lua_gettop L1 = 3 \<and> lua_gettop L2 = 2 \<and>
      s2v L2 0 = s2v example_State 0 \<and> s2v L2 1 = s2v example_State 1 \<and>
      s2v L2 2 = s2v example_State 2)"
proof -
  let ?i = "\<lparr>val = \<lparr>v_gc = 0, v_p = 0, v_f = 0, v_i = 0, v_n = 0::rat, v_ub = 0\<rparr>, tt = LUA_VNUMINT\<rparr>"
  have i: "index2value Map.empty example_State 1 = Inr ?i"
    by (simp add: example_simps)
  have h: "0 \<le> ci_func_p (ci example_State)" "ci_func_p (ci example_State) < top_p example_State"
    "top_p example_State < ci_top_p (ci example_State)"
    "ci_top_p (ci example_State) \<le> int (length (stack example_State))"
    "tbclist_p example_State < top_p example_State"
    by (simp_all add: example_State_def)
  have g: "lua_gettop example_State = 2" "top_p example_State = 3"
    by (simp_all add: lua_gettop_def example_State_def)
  from lua_pushvalue_pop [OF i h, of "\<lambda>L level. Inl MemoryFault"]
  obtain L1 L2 where r: "lua_pushvalue Map.empty example_State 1 = Inr L1"
    "lua_settop (\<lambda>L level. Inl MemoryFault) L1 (- 2) = Inr L2"
    "lua_gettop L1 = lua_gettop example_State + 1" "lua_gettop L2 = lua_gettop example_State"
    "\<forall>i. 0 \<le> i \<and> i < top_p example_State \<longrightarrow> s2v L2 i = s2v example_State i"
    by blast
  from r(5) g have "s2v L2 0 = s2v example_State 0" "s2v L2 1 = s2v example_State 1"
    "s2v L2 2 = s2v example_State 2"
    by simp_all
  with i h r g show ?thesis
    by auto
qed

section \<open>UTF-8 escapes\<close>

declare utf8esc_loop.simps [simp del]

lemma word32_enum:
  assumes "unat (a :: 32 word) < n"
  shows "a \<in> of_nat ` {0..<n}"
proof -
  have "a = of_nat (unat a)" by simp
  with assms show ?thesis by (metis atLeastLessThan_iff imageI zero_le)
qed

lemma cont_enum:
  "\<forall>k \<in> {0..<64::nat}.
     (ucast (0x80 OR (of_nat k :: 32 word)) :: 8 word) AND 0xC0 = 0x80 \<and>
     (ucast ((ucast (0x80 OR (of_nat k :: 32 word)) :: 8 word) AND 0x3F) :: 32 word) = of_nat k"
  by (simp add: atLeastLessThan_upt upt_rec [of 0] upt_rec [of "Suc _"] upt_rec [of "numeral _"])

lemma cont_byte:
  fixes y :: "32 word"
  defines "c \<equiv> cast_char (0x80 OR (y AND 0x3f))"
  shows "c AND 0xC0 = 0x80 \<and> ucast (c AND 0x3F) = y AND 0x3f"
proof -
  have "y AND 0x3f \<le> 0x3f" by (rule word_and_le1)
  then have "unat (y AND 0x3f) < 64" by (simp add: word_le_nat_alt)
  then have "y AND 0x3f \<in> of_nat ` {0..<64}" by (rule word32_enum)
  then obtain k where k: "k \<in> {0..<64}" "y AND 0x3f = of_nat k" by blast
  from cont_enum k(1) show ?thesis unfolding c_def cast_char_def k(2) by blast
qed

lemma recombine: "push_bit 6 (drop_bit 6 y) OR (y AND 0x3f) = (y :: 32 word)"
proof -
  have m: "y AND 0x3f = take_bit 6 y"
    by (simp add: take_bit_eq_mask mask_eq_exp_minus_1)
  have "push_bit 6 (drop_bit 6 y) OR take_bit 6 y = y"
    by (rule bit_word_eqI) (auto simp: bit_simps)
  with m show ?thesis by simp
qed

lemma loop_stop:
  "\<not> drop_bit 1 mfb < drop_bit 6 x \<Longrightarrow>
   utf8esc_loop buff n x mfb =
     (buff[UTF8BUFFSZ - n := cast_char (0x80 OR (x AND 0x3f))], n + 1, drop_bit 6 x, drop_bit 1 mfb)"
  by (subst utf8esc_loop.simps) (simp add: Let_def)

lemma loop_go:
  "drop_bit 1 mfb < drop_bit 6 x \<Longrightarrow>
   utf8esc_loop buff n x mfb =
     utf8esc_loop (buff[UTF8BUFFSZ - n := cast_char (0x80 OR (x AND 0x3f))]) (n + 1)
       (drop_bit 6 x) (drop_bit 1 mfb)"
  by (subst utf8esc_loop.simps) (simp add: Let_def)

lemma unat_drop: "unat (drop_bit n (x :: 32 word)) = unat x div 2 ^ n"
  by (simp only: unat_drop_bit_eq) (simp only: drop_bit_eq_div)

lemma length8:
  assumes "length buff = 8"
  obtains b0 b1 b2 b3 b4 b5 b6 b7 where "buff = [b0, b1, b2, b3, b4, b5, b6, b7]"
  using assms by (auto simp: eval_nat_numeral length_Suc_conv)


lemma range2:
  fixes x :: "32 word"
  assumes "0x80 \<le> x" "x < 0x800"
  shows "luaO_utf8esc [b0, b1, b2, b3, b4, b5, b6, b7] x = (2, [b0, b1, b2, b3, b4, b5,
     cast_char (push_bit 1 (NOT 0x1f) OR drop_bit 6 x), cast_char (0x80 OR (x AND 0x3f))])"
proof -
  from assms have u: "128 \<le> unat x" "unat x < 2048"
    by (simp_all add: word_le_nat_alt word_less_nat_alt)
  then have s1: "\<not> drop_bit 1 (0x3f :: 32 word) < drop_bit 6 x"
    by (simp add: word_less_nat_alt unat_drop)
  from assms have "\<not> x < 0x80" by simp
  then show ?thesis
    by (simp add: luaO_utf8esc_def loop_stop [OF s1] UTF8BUFFSZ_def)
qed


lemma range3:
  fixes x :: "32 word"
  assumes "0x800 \<le> x" "x < 0x10000"
  shows "luaO_utf8esc [b0, b1, b2, b3, b4, b5, b6, b7] x = (3, [b0, b1, b2, b3, b4,
     cast_char (push_bit 1 (NOT 0xf) OR drop_bit 12 x),
     cast_char (0x80 OR (drop_bit 6 x AND 0x3f)), cast_char (0x80 OR (x AND 0x3f))])"
proof -
  from assms have u: "2048 \<le> unat x" "unat x < 65536"
    by (simp_all add: word_le_nat_alt word_less_nat_alt)
  then have s1: "(0x1f :: 32 word) < drop_bit 6 x"
    and s2: "\<not> (0xf :: 32 word) < drop_bit 12 x"
    by (simp_all add: word_less_nat_alt unat_drop)
  from u have "\<not> x < 0x80" by (simp add: word_less_nat_alt)
  then show ?thesis
    by (simp add: luaO_utf8esc_def loop_go loop_stop s1 s2 UTF8BUFFSZ_def)
qed

lemma range6:
  fixes x :: "32 word"
  assumes "0x4000000 \<le> x" "x \<le> 0x7FFFFFFF"
  shows "luaO_utf8esc [b0, b1, b2, b3, b4, b5, b6, b7] x = (6, [b0, b1,
     cast_char (push_bit 1 (NOT 0x1) OR drop_bit 30 x),
     cast_char (0x80 OR (drop_bit 24 x AND 0x3f)),
     cast_char (0x80 OR (drop_bit 18 x AND 0x3f)),
     cast_char (0x80 OR (drop_bit 12 x AND 0x3f)),
     cast_char (0x80 OR (drop_bit 6 x AND 0x3f)), cast_char (0x80 OR (x AND 0x3f))])"
proof -
  from assms have u: "67108864 \<le> unat x" "unat x < 2147483648"
    by (simp_all add: word_le_nat_alt word_less_nat_alt)
  then have s1: "(0x1f :: 32 word) < drop_bit 6 x"
    and s2: "(0xf :: 32 word) < drop_bit 12 x"
    and s3: "(0x7 :: 32 word) < drop_bit 18 x"
    and s4: "(0x3 :: 32 word) < drop_bit 24 x"
    and s5: "\<not> (0x1 :: 32 word) < drop_bit 30 x"
    by (simp_all add: word_less_nat_alt unat_drop)
  from u have "\<not> x < 0x80" by (simp add: word_less_nat_alt)
  then show ?thesis
    by (simp add: luaO_utf8esc_def loop_go loop_stop s1 s2 s3 s4 s5 UTF8BUFFSZ_def)
qed


lemma range4:
  fixes x :: "32 word"
  assumes "0x10000 \<le> x" "x < 0x200000"
  shows "luaO_utf8esc [b0, b1, b2, b3, b4, b5, b6, b7] x = (4, [b0, b1, b2, b3,
     cast_char (push_bit 1 (NOT 0x7) OR drop_bit 18 x),
     cast_char (0x80 OR (drop_bit 12 x AND 0x3f)),
     cast_char (0x80 OR (drop_bit 6 x AND 0x3f)), cast_char (0x80 OR (x AND 0x3f))])"
proof -
  from assms have u: "65536 \<le> unat x" "unat x < 2097152"
    by (simp_all add: word_le_nat_alt word_less_nat_alt)
  then have s1: "(0x1f :: 32 word) < drop_bit 6 x"
    and s2: "(0xf :: 32 word) < drop_bit 12 x"
    and s3: "\<not> (0x7 :: 32 word) < drop_bit 18 x"
    by (simp_all add: word_less_nat_alt unat_drop)
  from u have "\<not> x < 0x80" by (simp add: word_less_nat_alt)
  then show ?thesis
    by (simp add: luaO_utf8esc_def loop_go loop_stop s1 s2 s3 UTF8BUFFSZ_def)
qed

lemma range5:
  fixes x :: "32 word"
  assumes "0x200000 \<le> x" "x < 0x4000000"
  shows "luaO_utf8esc [b0, b1, b2, b3, b4, b5, b6, b7] x = (5, [b0, b1, b2,
     cast_char (push_bit 1 (NOT 0x3) OR drop_bit 24 x),
     cast_char (0x80 OR (drop_bit 18 x AND 0x3f)),
     cast_char (0x80 OR (drop_bit 12 x AND 0x3f)),
     cast_char (0x80 OR (drop_bit 6 x AND 0x3f)), cast_char (0x80 OR (x AND 0x3f))])"
proof -
  from assms have u: "2097152 \<le> unat x" "unat x < 67108864"
    by (simp_all add: word_le_nat_alt word_less_nat_alt)
  then have s1: "(0x1f :: 32 word) < drop_bit 6 x"
    and s2: "(0xf :: 32 word) < drop_bit 12 x"
    and s3: "(0x7 :: 32 word) < drop_bit 18 x"
    and s4: "\<not> (0x3 :: 32 word) < drop_bit 24 x"
    by (simp_all add: word_less_nat_alt unat_drop)
  from u have "\<not> x < 0x80" by (simp add: word_less_nat_alt)
  then show ?thesis
    by (simp add: luaO_utf8esc_def loop_go loop_stop s1 s2 s3 s4 UTF8BUFFSZ_def)
qed

lemma range1:
  fixes x :: "32 word"
  assumes "x < 0x80"
  shows "luaO_utf8esc [b0, b1, b2, b3, b4, b5, b6, b7] x = (1, [b0, b1, b2, b3, b4, b5, b6, cast_char x])"
  using assms by (simp add: luaO_utf8esc_def UTF8BUFFSZ_def)

lemma ascii_enum:
  "\<forall>k \<in> {0..<128::nat}. (ucast (of_nat k :: 32 word) :: 8 word) AND 0x80 = 0 \<and>
     (ucast (ucast (of_nat k :: 32 word) :: 8 word) :: 32 word) = of_nat k"
  by (simp add: atLeastLessThan_upt upt_rec [of 0] upt_rec [of "Suc _"] upt_rec [of "numeral _"])

lemma ascii_byte:
  fixes x :: "32 word"
  assumes "x < 0x80"
  shows "cast_char x AND 0x80 = 0 \<and> ucast (cast_char x) = x"
proof -
  from assms have "unat x < 128" by (simp add: word_less_nat_alt)
  then have "x \<in> of_nat ` {0..<128}" by (rule word32_enum)
  then obtain k where k: "k \<in> {0..<128}" "x = of_nat k" by blast
  from ascii_enum k(1) show ?thesis unfolding cast_char_def k(2) by blast
qed

lemma lead2_enum:
  "\<forall>k \<in> {0..<32::nat}. (ucast (push_bit 1 (NOT 0x1f) OR (of_nat k :: 32 word)) :: 8 word) AND 0x80 \<noteq> 0 \<and>
     (ucast (push_bit 1 (NOT 0x1f) OR (of_nat k :: 32 word)) :: 8 word) AND 0xE0 = 0xC0 \<and>
     (ucast ((ucast (push_bit 1 (NOT 0x1f) OR (of_nat k :: 32 word)) :: 8 word) AND 0x1F) :: 32 word) = of_nat k"
  by (simp add: atLeastLessThan_upt upt_rec [of 0] upt_rec [of "Suc _"] upt_rec [of "numeral _"])

lemma lead2:
  fixes y :: "32 word"
  assumes "\<not> 0x1f < y"
  defines "l \<equiv> cast_char (push_bit 1 (NOT 0x1f) OR y)"
  shows "l AND 0x80 \<noteq> 0 \<and> l AND 0xE0 = 0xC0 \<and> ucast (l AND 0x1F) = y"
proof -
  from assms(1) have "unat y < 32" by (simp add: word_less_nat_alt)
  then have "y \<in> of_nat ` {0..<32}" by (rule word32_enum)
  then obtain k where k: "k \<in> {0..<32}" "y = of_nat k" by blast
  from lead2_enum k(1) show ?thesis unfolding l_def cast_char_def k(2) by blast
qed

lemma lead3_enum:
  "\<forall>k \<in> {0..<16::nat}. (ucast (push_bit 1 (NOT 0xf) OR (of_nat k :: 32 word)) :: 8 word) AND 0x80 \<noteq> 0 \<and>
     (ucast (push_bit 1 (NOT 0xf) OR (of_nat k :: 32 word)) :: 8 word) AND 0xE0 \<noteq> 0xC0 \<and>
     (ucast (push_bit 1 (NOT 0xf) OR (of_nat k :: 32 word)) :: 8 word) AND 0xF0 = 0xE0 \<and>
     (ucast ((ucast (push_bit 1 (NOT 0xf) OR (of_nat k :: 32 word)) :: 8 word) AND 0x0F) :: 32 word) = of_nat k"
  by (simp add: atLeastLessThan_upt upt_rec [of 0] upt_rec [of "Suc _"] upt_rec [of "numeral _"])

lemma lead3:
  fixes y :: "32 word"
  assumes "\<not> 0xf < y"
  defines "l \<equiv> cast_char (push_bit 1 (NOT 0xf) OR y)"
  shows "l AND 0x80 \<noteq> 0 \<and> l AND 0xE0 \<noteq> 0xC0 \<and> l AND 0xF0 = 0xE0 \<and> ucast (l AND 0x0F) = y"
proof -
  from assms(1) have "unat y < 16" by (simp add: word_less_nat_alt)
  then have "y \<in> of_nat ` {0..<16}" by (rule word32_enum)
  then obtain k where k: "k \<in> {0..<16}" "y = of_nat k" by blast
  from lead3_enum k(1) show ?thesis unfolding l_def cast_char_def k(2) by blast
qed

lemma lead4_enum:
  "\<forall>k \<in> {0..<8::nat}. (ucast (push_bit 1 (NOT 0x7) OR (of_nat k :: 32 word)) :: 8 word) AND 0x80 \<noteq> 0 \<and>
     (ucast (push_bit 1 (NOT 0x7) OR (of_nat k :: 32 word)) :: 8 word) AND 0xE0 \<noteq> 0xC0 \<and>
     (ucast (push_bit 1 (NOT 0x7) OR (of_nat k :: 32 word)) :: 8 word) AND 0xF0 \<noteq> 0xE0 \<and>
     (ucast (push_bit 1 (NOT 0x7) OR (of_nat k :: 32 word)) :: 8 word) AND 0xF8 = 0xF0 \<and>
     (ucast ((ucast (push_bit 1 (NOT 0x7) OR (of_nat k :: 32 word)) :: 8 word) AND 0x07) :: 32 word) = of_nat k"
  by (simp add: atLeastLessThan_upt upt_rec [of 0] upt_rec [of "Suc _"] upt_rec [of "numeral _"])

lemma lead4:
  fixes y :: "32 word"
  assumes "\<not> 0x7 < y"
  defines "l \<equiv> cast_char (push_bit 1 (NOT 0x7) OR y)"
  shows "l AND 0x80 \<noteq> 0 \<and> l AND 0xE0 \<noteq> 0xC0 \<and> l AND 0xF0 \<noteq> 0xE0 \<and> l AND 0xF8 = 0xF0 \<and> ucast (l AND 0x07) = y"
proof -
  from assms(1) have "unat y < 8" by (simp add: word_less_nat_alt)
  then have "y \<in> of_nat ` {0..<8}" by (rule word32_enum)
  then obtain k where k: "k \<in> {0..<8}" "y = of_nat k" by blast
  from lead4_enum k(1) show ?thesis unfolding l_def cast_char_def k(2) by blast
qed

lemma lead5_enum:
  "\<forall>k \<in> {0..<4::nat}. (ucast (push_bit 1 (NOT 0x3) OR (of_nat k :: 32 word)) :: 8 word) AND 0x80 \<noteq> 0 \<and>
     (ucast (push_bit 1 (NOT 0x3) OR (of_nat k :: 32 word)) :: 8 word) AND 0xE0 \<noteq> 0xC0 \<and>
     (ucast (push_bit 1 (NOT 0x3) OR (of_nat k :: 32 word)) :: 8 word) AND 0xF0 \<noteq> 0xE0 \<and>
     (ucast (push_bit 1 (NOT 0x3) OR (of_nat k :: 32 word)) :: 8 word) AND 0xF8 \<noteq> 0xF0 \<and>
     (ucast (push_bit 1 (NOT 0x3) OR (of_nat k :: 32 word)) :: 8 word) AND 0xFC = 0xF8 \<and>
     (ucast ((ucast (push_bit 1 (NOT 0x3) OR (of_nat k :: 32 word)) :: 8 word) AND 0x03) :: 32 word) = of_nat k"
  by (simp add: atLeastLessThan_upt upt_rec [of 0] upt_rec [of "Suc _"] upt_rec [of "numeral _"])

lemma lead5:
  fixes y :: "32 word"
  assumes "\<not> 0x3 < y"
  defines "l \<equiv> cast_char (push_bit 1 (NOT 0x3) OR y)"
  shows "l AND 0x80 \<noteq> 0 \<and> l AND 0xE0 \<noteq> 0xC0 \<and> l AND 0xF0 \<noteq> 0xE0 \<and> l AND 0xF8 \<noteq> 0xF0 \<and> l AND 0xFC = 0xF8 \<and> ucast (l AND 0x03) = y"
proof -
  from assms(1) have "unat y < 4" by (simp add: word_less_nat_alt)
  then have "y \<in> of_nat ` {0..<4}" by (rule word32_enum)
  then obtain k where k: "k \<in> {0..<4}" "y = of_nat k" by blast
  from lead5_enum k(1) show ?thesis unfolding l_def cast_char_def k(2) by blast
qed

lemma lead6_enum:
  "\<forall>k \<in> {0..<2::nat}. (ucast (push_bit 1 (NOT 0x1) OR (of_nat k :: 32 word)) :: 8 word) AND 0x80 \<noteq> 0 \<and>
     (ucast (push_bit 1 (NOT 0x1) OR (of_nat k :: 32 word)) :: 8 word) AND 0xE0 \<noteq> 0xC0 \<and>
     (ucast (push_bit 1 (NOT 0x1) OR (of_nat k :: 32 word)) :: 8 word) AND 0xF0 \<noteq> 0xE0 \<and>
     (ucast (push_bit 1 (NOT 0x1) OR (of_nat k :: 32 word)) :: 8 word) AND 0xF8 \<noteq> 0xF0 \<and>
     (ucast (push_bit 1 (NOT 0x1) OR (of_nat k :: 32 word)) :: 8 word) AND 0xFC \<noteq> 0xF8 \<and>
     (ucast (push_bit 1 (NOT 0x1) OR (of_nat k :: 32 word)) :: 8 word) AND 0xFE = 0xFC \<and>
     (ucast ((ucast (push_bit 1 (NOT 0x1) OR (of_nat k :: 32 word)) :: 8 word) AND 0x01) :: 32 word) = of_nat k"
  by (simp add: atLeastLessThan_upt upt_rec [of 0] upt_rec [of "Suc _"] upt_rec [of "numeral _"])

lemma lead6:
  fixes y :: "32 word"
  assumes "\<not> 0x1 < y"
  defines "l \<equiv> cast_char (push_bit 1 (NOT 0x1) OR y)"
  shows "l AND 0x80 \<noteq> 0 \<and> l AND 0xE0 \<noteq> 0xC0 \<and> l AND 0xF0 \<noteq> 0xE0 \<and> l AND 0xF8 \<noteq> 0xF0 \<and> l AND 0xFC \<noteq> 0xF8 \<and> l AND 0xFE = 0xFC \<and> ucast (l AND 0x01) = y"
proof -
  from assms(1) have "unat y < 2" by (simp add: word_less_nat_alt)
  then have "y \<in> of_nat ` {0..<2}" by (rule word32_enum)
  then obtain k where k: "k \<in> {0..<2}" "y = of_nat k" by blast
  from lead6_enum k(1) show ?thesis unfolding l_def cast_char_def k(2) by blast
qed


lemma recombine_at:
  "push_bit 6 (drop_bit 12 x) OR (drop_bit 6 x AND 0x3f) = drop_bit 6 (x :: 32 word)"
  "push_bit 6 (drop_bit 18 x) OR (drop_bit 12 x AND 0x3f) = drop_bit 12 x"
  "push_bit 6 (drop_bit 24 x) OR (drop_bit 18 x AND 0x3f) = drop_bit 18 x"
  "push_bit 6 (drop_bit 30 x) OR (drop_bit 24 x AND 0x3f) = drop_bit 24 x"
  using recombine [of "drop_bit 6 x"] recombine [of "drop_bit 12 x"]
    recombine [of "drop_bit 18 x"] recombine [of "drop_bit 24 x"]
  by simp_all

lemma decode2:
  fixes x :: "32 word"
  assumes "0x80 \<le> x" "x < 0x800"
  shows "utf8_decode [cast_char (push_bit 1 (NOT 0x1f) OR drop_bit 6 x),
     cast_char (0x80 OR (x AND 0x3f))] = Some x"
proof -
  define l where "l = cast_char (push_bit 1 (NOT 0x1f) OR drop_bit 6 x)"
  define c0 where "c0 = cast_char (0x80 OR (x AND 0x3f))"
  from assms have u: "128 \<le> unat x" "unat x < 2048"
    by (simp_all add: word_le_nat_alt word_less_nat_alt)
  then have s: "\<not> (0x1f :: 32 word) < drop_bit 6 x"
    by (simp add: word_less_nat_alt unat_drop)
  note ld = lead2 [OF s, folded l_def]
  note k0 = cont_byte [of "x", folded c0_def]
  have "utf8_cont [c0] (ucast (l AND 0x1F)) = Some (push_bit 6 (ucast (l AND 0x1F)) OR ucast (c0 AND 0x3F))"
    using k0 [THEN conjunct1] by (simp only: utf8_cont.simps simp_thms if_True)
  also have "(push_bit 6 (ucast (l AND 0x1F)) OR ucast (c0 AND 0x3F)) = x"
    using ld [THEN conjunct2] k0 [THEN conjunct2] by (simp only: recombine recombine_at)
  finally have c: "utf8_cont [c0] (ucast (l AND 0x1F)) = Some x" .
  show ?thesis
    using ld c assms(1) unfolding l_def [symmetric] c0_def [symmetric]
    by (simp add: utf8_decode_def utf8_seq_def)
qed

lemma decode3:
  fixes x :: "32 word"
  assumes "0x800 \<le> x" "x < 0x10000"
  shows "utf8_decode [cast_char (push_bit 1 (NOT 0xf) OR drop_bit 12 x),
     cast_char (0x80 OR (drop_bit 6 x AND 0x3f)),
     cast_char (0x80 OR (x AND 0x3f))] = Some x"
proof -
  define l where "l = cast_char (push_bit 1 (NOT 0xf) OR drop_bit 12 x)"
  define c1 where "c1 = cast_char (0x80 OR (drop_bit 6 x AND 0x3f))"
  define c0 where "c0 = cast_char (0x80 OR (x AND 0x3f))"
  from assms have u: "2048 \<le> unat x" "unat x < 65536"
    by (simp_all add: word_le_nat_alt word_less_nat_alt)
  then have s: "\<not> (0xf :: 32 word) < drop_bit 12 x"
    by (simp add: word_less_nat_alt unat_drop)
  note ld = lead3 [OF s, folded l_def]
  note k1 = cont_byte [of "drop_bit 6 x", folded c1_def]
  note k0 = cont_byte [of "x", folded c0_def]
  have "utf8_cont [c1, c0] (ucast (l AND 0x0F)) = Some (push_bit 6 (push_bit 6 (ucast (l AND 0x0F)) OR ucast (c1 AND 0x3F)) OR ucast (c0 AND 0x3F))"
    using k0 [THEN conjunct1] k1 [THEN conjunct1] by (simp only: utf8_cont.simps simp_thms if_True)
  also have "(push_bit 6 (push_bit 6 (ucast (l AND 0x0F)) OR ucast (c1 AND 0x3F)) OR ucast (c0 AND 0x3F)) = x"
    using ld [THEN conjunct2] k0 [THEN conjunct2] k1 [THEN conjunct2] by (simp only: recombine recombine_at)
  finally have c: "utf8_cont [c1, c0] (ucast (l AND 0x0F)) = Some x" .
  show ?thesis
    using ld c assms(1) unfolding l_def [symmetric] c1_def [symmetric] c0_def [symmetric]
    by (simp add: utf8_decode_def utf8_seq_def)
qed

lemma decode4:
  fixes x :: "32 word"
  assumes "0x10000 \<le> x" "x < 0x200000"
  shows "utf8_decode [cast_char (push_bit 1 (NOT 0x7) OR drop_bit 18 x),
     cast_char (0x80 OR (drop_bit 12 x AND 0x3f)),
     cast_char (0x80 OR (drop_bit 6 x AND 0x3f)),
     cast_char (0x80 OR (x AND 0x3f))] = Some x"
proof -
  define l where "l = cast_char (push_bit 1 (NOT 0x7) OR drop_bit 18 x)"
  define c2 where "c2 = cast_char (0x80 OR (drop_bit 12 x AND 0x3f))"
  define c1 where "c1 = cast_char (0x80 OR (drop_bit 6 x AND 0x3f))"
  define c0 where "c0 = cast_char (0x80 OR (x AND 0x3f))"
  from assms have u: "65536 \<le> unat x" "unat x < 2097152"
    by (simp_all add: word_le_nat_alt word_less_nat_alt)
  then have s: "\<not> (0x7 :: 32 word) < drop_bit 18 x"
    by (simp add: word_less_nat_alt unat_drop)
  note ld = lead4 [OF s, folded l_def]
  note k2 = cont_byte [of "drop_bit 12 x", folded c2_def]
  note k1 = cont_byte [of "drop_bit 6 x", folded c1_def]
  note k0 = cont_byte [of "x", folded c0_def]
  have "utf8_cont [c2, c1, c0] (ucast (l AND 0x07)) = Some (push_bit 6 (push_bit 6 (push_bit 6 (ucast (l AND 0x07)) OR ucast (c2 AND 0x3F)) OR ucast (c1 AND 0x3F)) OR ucast (c0 AND 0x3F))"
    using k0 [THEN conjunct1] k1 [THEN conjunct1] k2 [THEN conjunct1] by (simp only: utf8_cont.simps simp_thms if_True)
  also have "(push_bit 6 (push_bit 6 (push_bit 6 (ucast (l AND 0x07)) OR ucast (c2 AND 0x3F)) OR ucast (c1 AND 0x3F)) OR ucast (c0 AND 0x3F)) = x"
    using ld [THEN conjunct2] k0 [THEN conjunct2] k1 [THEN conjunct2] k2 [THEN conjunct2] by (simp only: recombine recombine_at)
  finally have c: "utf8_cont [c2, c1, c0] (ucast (l AND 0x07)) = Some x" .
  show ?thesis
    using ld c assms(1) unfolding l_def [symmetric] c2_def [symmetric] c1_def [symmetric] c0_def [symmetric]
    by (simp add: utf8_decode_def utf8_seq_def)
qed

lemma decode5:
  fixes x :: "32 word"
  assumes "0x200000 \<le> x" "x < 0x4000000"
  shows "utf8_decode [cast_char (push_bit 1 (NOT 0x3) OR drop_bit 24 x),
     cast_char (0x80 OR (drop_bit 18 x AND 0x3f)),
     cast_char (0x80 OR (drop_bit 12 x AND 0x3f)),
     cast_char (0x80 OR (drop_bit 6 x AND 0x3f)),
     cast_char (0x80 OR (x AND 0x3f))] = Some x"
proof -
  define l where "l = cast_char (push_bit 1 (NOT 0x3) OR drop_bit 24 x)"
  define c3 where "c3 = cast_char (0x80 OR (drop_bit 18 x AND 0x3f))"
  define c2 where "c2 = cast_char (0x80 OR (drop_bit 12 x AND 0x3f))"
  define c1 where "c1 = cast_char (0x80 OR (drop_bit 6 x AND 0x3f))"
  define c0 where "c0 = cast_char (0x80 OR (x AND 0x3f))"
  from assms have u: "2097152 \<le> unat x" "unat x < 67108864"
    by (simp_all add: word_le_nat_alt word_less_nat_alt)
  then have s: "\<not> (0x3 :: 32 word) < drop_bit 24 x"
    by (simp add: word_less_nat_alt unat_drop)
  note ld = lead5 [OF s, folded l_def]
  note k3 = cont_byte [of "drop_bit 18 x", folded c3_def]
  note k2 = cont_byte [of "drop_bit 12 x", folded c2_def]
  note k1 = cont_byte [of "drop_bit 6 x", folded c1_def]
  note k0 = cont_byte [of "x", folded c0_def]
  have "utf8_cont [c3, c2, c1, c0] (ucast (l AND 0x03)) = Some (push_bit 6 (push_bit 6 (push_bit 6 (push_bit 6 (ucast (l AND 0x03)) OR ucast (c3 AND 0x3F)) OR ucast (c2 AND 0x3F)) OR ucast (c1 AND 0x3F)) OR ucast (c0 AND 0x3F))"
    using k0 [THEN conjunct1] k1 [THEN conjunct1] k2 [THEN conjunct1] k3 [THEN conjunct1] by (simp only: utf8_cont.simps simp_thms if_True)
  also have "(push_bit 6 (push_bit 6 (push_bit 6 (push_bit 6 (ucast (l AND 0x03)) OR ucast (c3 AND 0x3F)) OR ucast (c2 AND 0x3F)) OR ucast (c1 AND 0x3F)) OR ucast (c0 AND 0x3F)) = x"
    using ld [THEN conjunct2] k0 [THEN conjunct2] k1 [THEN conjunct2] k2 [THEN conjunct2] k3 [THEN conjunct2] by (simp only: recombine recombine_at)
  finally have c: "utf8_cont [c3, c2, c1, c0] (ucast (l AND 0x03)) = Some x" .
  show ?thesis
    using ld c assms(1) unfolding l_def [symmetric] c3_def [symmetric] c2_def [symmetric] c1_def [symmetric] c0_def [symmetric]
    by (simp add: utf8_decode_def utf8_seq_def)
qed

lemma decode6:
  fixes x :: "32 word"
  assumes "0x4000000 \<le> x" "x \<le> 0x7FFFFFFF"
  shows "utf8_decode [cast_char (push_bit 1 (NOT 0x1) OR drop_bit 30 x),
     cast_char (0x80 OR (drop_bit 24 x AND 0x3f)),
     cast_char (0x80 OR (drop_bit 18 x AND 0x3f)),
     cast_char (0x80 OR (drop_bit 12 x AND 0x3f)),
     cast_char (0x80 OR (drop_bit 6 x AND 0x3f)),
     cast_char (0x80 OR (x AND 0x3f))] = Some x"
proof -
  define l where "l = cast_char (push_bit 1 (NOT 0x1) OR drop_bit 30 x)"
  define c4 where "c4 = cast_char (0x80 OR (drop_bit 24 x AND 0x3f))"
  define c3 where "c3 = cast_char (0x80 OR (drop_bit 18 x AND 0x3f))"
  define c2 where "c2 = cast_char (0x80 OR (drop_bit 12 x AND 0x3f))"
  define c1 where "c1 = cast_char (0x80 OR (drop_bit 6 x AND 0x3f))"
  define c0 where "c0 = cast_char (0x80 OR (x AND 0x3f))"
  from assms have u: "67108864 \<le> unat x" "unat x < 2147483648"
    by (simp_all add: word_le_nat_alt word_less_nat_alt)
  then have s: "\<not> (0x1 :: 32 word) < drop_bit 30 x"
    by (simp add: word_less_nat_alt unat_drop)
  note ld = lead6 [OF s, folded l_def]
  note k4 = cont_byte [of "drop_bit 24 x", folded c4_def]
  note k3 = cont_byte [of "drop_bit 18 x", folded c3_def]
  note k2 = cont_byte [of "drop_bit 12 x", folded c2_def]
  note k1 = cont_byte [of "drop_bit 6 x", folded c1_def]
  note k0 = cont_byte [of "x", folded c0_def]
  have "utf8_cont [c4, c3, c2, c1, c0] (ucast (l AND 0x01)) = Some (push_bit 6 (push_bit 6 (push_bit 6 (push_bit 6 (push_bit 6 (ucast (l AND 0x01)) OR ucast (c4 AND 0x3F)) OR ucast (c3 AND 0x3F)) OR ucast (c2 AND 0x3F)) OR ucast (c1 AND 0x3F)) OR ucast (c0 AND 0x3F))"
    using k0 [THEN conjunct1] k1 [THEN conjunct1] k2 [THEN conjunct1] k3 [THEN conjunct1] k4 [THEN conjunct1] by (simp only: utf8_cont.simps simp_thms if_True)
  also have "(push_bit 6 (push_bit 6 (push_bit 6 (push_bit 6 (push_bit 6 (ucast (l AND 0x01)) OR ucast (c4 AND 0x3F)) OR ucast (c3 AND 0x3F)) OR ucast (c2 AND 0x3F)) OR ucast (c1 AND 0x3F)) OR ucast (c0 AND 0x3F)) = x"
    using ld [THEN conjunct2] k0 [THEN conjunct2] k1 [THEN conjunct2] k2 [THEN conjunct2] k3 [THEN conjunct2] k4 [THEN conjunct2] by (simp only: recombine recombine_at)
  finally have c: "utf8_cont [c4, c3, c2, c1, c0] (ucast (l AND 0x01)) = Some x" .
  show ?thesis
    using ld c assms(1) unfolding l_def [symmetric] c4_def [symmetric] c3_def [symmetric] c2_def [symmetric] c1_def [symmetric] c0_def [symmetric]
    by (simp add: utf8_decode_def utf8_seq_def)
qed

lemma unat_ucast_8_32: "unat (ucast (c :: 8 word) :: 32 word) = unat c"
proof -
  have "unat c < 2 ^ 32" using unsigned_less [of c, where 'a = nat] by simp
  then show ?thesis by (simp add: unsigned_ucast_eq take_bit_nat_eq_self)
qed

lemma word32_ranges:
  fixes x :: "32 word"
  assumes "x \<le> 0x7FFFFFFF"
  obtains "x < 0x80"
  | "0x80 \<le> x" "x < 0x800"
  | "0x800 \<le> x" "x < 0x10000"
  | "0x10000 \<le> x" "x < 0x200000"
  | "0x200000 \<le> x" "x < 0x4000000"
  | "0x4000000 \<le> x" "x \<le> 0x7FFFFFFF"
  using assms by (meson not_le)

lemma encode2:
  fixes x :: "32 word"
  assumes "0x80 \<le> x" "x < 0x800"
  shows "\<exists>bs. length bs = 2 \<and>
    luaO_utf8esc [b0, b1, b2, b3, b4, b5, b6, b7] x = (2, [b0, b1, b2, b3, b4, b5] @ bs) \<and>
    utf8_decode bs = Some x"
proof -
  let ?bs = "[cast_char (push_bit 1 (NOT 0x1f) OR drop_bit 6 x),
      cast_char (0x80 OR (x AND 0x3f))]"
  have 1: "length ?bs = 2"
    by simp
  have 2: "luaO_utf8esc [b0, b1, b2, b3, b4, b5, b6, b7] x = (2, [b0, b1, b2, b3, b4, b5] @ ?bs)"
    using range2 [OF assms] by simp
  have 3: "utf8_decode ?bs = Some x"
    by (rule decode2 [OF assms])
  from 1 2 3 show ?thesis by blast
qed

lemma encode3:
  fixes x :: "32 word"
  assumes "0x800 \<le> x" "x < 0x10000"
  shows "\<exists>bs. length bs = 3 \<and>
    luaO_utf8esc [b0, b1, b2, b3, b4, b5, b6, b7] x = (3, [b0, b1, b2, b3, b4] @ bs) \<and>
    utf8_decode bs = Some x"
proof -
  let ?bs = "[cast_char (push_bit 1 (NOT 0xf) OR drop_bit 12 x),
      cast_char (0x80 OR (drop_bit 6 x AND 0x3f)),
      cast_char (0x80 OR (x AND 0x3f))]"
  have 1: "length ?bs = 3"
    by simp
  have 2: "luaO_utf8esc [b0, b1, b2, b3, b4, b5, b6, b7] x = (3, [b0, b1, b2, b3, b4] @ ?bs)"
    using range3 [OF assms] by simp
  have 3: "utf8_decode ?bs = Some x"
    by (rule decode3 [OF assms])
  from 1 2 3 show ?thesis by blast
qed

lemma encode4:
  fixes x :: "32 word"
  assumes "0x10000 \<le> x" "x < 0x200000"
  shows "\<exists>bs. length bs = 4 \<and>
    luaO_utf8esc [b0, b1, b2, b3, b4, b5, b6, b7] x = (4, [b0, b1, b2, b3] @ bs) \<and>
    utf8_decode bs = Some x"
proof -
  let ?bs = "[cast_char (push_bit 1 (NOT 0x7) OR drop_bit 18 x),
      cast_char (0x80 OR (drop_bit 12 x AND 0x3f)),
      cast_char (0x80 OR (drop_bit 6 x AND 0x3f)),
      cast_char (0x80 OR (x AND 0x3f))]"
  have 1: "length ?bs = 4"
    by simp
  have 2: "luaO_utf8esc [b0, b1, b2, b3, b4, b5, b6, b7] x = (4, [b0, b1, b2, b3] @ ?bs)"
    using range4 [OF assms] by simp
  have 3: "utf8_decode ?bs = Some x"
    by (rule decode4 [OF assms])
  from 1 2 3 show ?thesis by blast
qed

lemma encode5:
  fixes x :: "32 word"
  assumes "0x200000 \<le> x" "x < 0x4000000"
  shows "\<exists>bs. length bs = 5 \<and>
    luaO_utf8esc [b0, b1, b2, b3, b4, b5, b6, b7] x = (5, [b0, b1, b2] @ bs) \<and>
    utf8_decode bs = Some x"
proof -
  let ?bs = "[cast_char (push_bit 1 (NOT 0x3) OR drop_bit 24 x),
      cast_char (0x80 OR (drop_bit 18 x AND 0x3f)),
      cast_char (0x80 OR (drop_bit 12 x AND 0x3f)),
      cast_char (0x80 OR (drop_bit 6 x AND 0x3f)),
      cast_char (0x80 OR (x AND 0x3f))]"
  have 1: "length ?bs = 5"
    by simp
  have 2: "luaO_utf8esc [b0, b1, b2, b3, b4, b5, b6, b7] x = (5, [b0, b1, b2] @ ?bs)"
    using range5 [OF assms] by simp
  have 3: "utf8_decode ?bs = Some x"
    by (rule decode5 [OF assms])
  from 1 2 3 show ?thesis by blast
qed

lemma encode6:
  fixes x :: "32 word"
  assumes "0x4000000 \<le> x" "x \<le> 0x7FFFFFFF"
  shows "\<exists>bs. length bs = 6 \<and>
    luaO_utf8esc [b0, b1, b2, b3, b4, b5, b6, b7] x = (6, [b0, b1] @ bs) \<and>
    utf8_decode bs = Some x"
proof -
  let ?bs = "[cast_char (push_bit 1 (NOT 0x1) OR drop_bit 30 x),
      cast_char (0x80 OR (drop_bit 24 x AND 0x3f)),
      cast_char (0x80 OR (drop_bit 18 x AND 0x3f)),
      cast_char (0x80 OR (drop_bit 12 x AND 0x3f)),
      cast_char (0x80 OR (drop_bit 6 x AND 0x3f)),
      cast_char (0x80 OR (x AND 0x3f))]"
  have 1: "length ?bs = 6"
    by simp
  have 2: "luaO_utf8esc [b0, b1, b2, b3, b4, b5, b6, b7] x = (6, [b0, b1] @ ?bs)"
    using range6 [OF assms] by simp
  have 3: "utf8_decode ?bs = Some x"
    by (rule decode6 [OF assms])
  from 1 2 3 show ?thesis by blast
qed

lemma encode1:
  fixes x :: "32 word"
  assumes "x < 0x80"
  shows "luaO_utf8esc [b0, b1, b2, b3, b4, b5, b6, b7] x = (1, [b0, b1, b2, b3, b4, b5, b6] @ [cast_char x]) \<and>
    utf8_decode [cast_char x] = Some x \<and> unat (cast_char x) = unat x"
proof -
  have "unat (ucast (cast_char x) :: 32 word) = unat (cast_char x)"
    by (rule unat_ucast_8_32)
  with ascii_byte [OF assms] have "unat (cast_char x) = unat x"
    by simp
  with ascii_byte [OF assms] range1 [OF assms] show ?thesis
    by (simp add: utf8_decode_def)
qed

text \<open>
  Claim C10.  For a code point \<open>x\<close> up to \<open>0x7FFFFFFF\<close> and a buffer of \<^verbatim>\<open>UTF8BUFFSZ\<close> bytes,
  \<^verbatim>\<open>luaO_utf8esc\<close> returns a count \<open>n\<close> between 1 and \<^verbatim>\<open>UTF8BUFFSZ\<close>; the buffer keeps its
  first \<^verbatim>\<open>UTF8BUFFSZ\<close>\<open> - n\<close> bytes, and its last \<open>n\<close> bytes are the UTF-8 encoding of \<open>x\<close>:
  decoding them gives \<open>x\<close> back.  For \<open>x\<close> below \<open>0x80\<close> the count is 1 and the byte is \<open>x\<close>.
\<close>

theorem luaO_utf8esc_encodes:
  assumes "x \<le> 0x7FFFFFFF" and "length buff = UTF8BUFFSZ"
  shows "case luaO_utf8esc buff x of
           (n, buff') \<Rightarrow>
             1 \<le> n \<and> n \<le> UTF8BUFFSZ \<and> length buff' = UTF8BUFFSZ \<and>
             take (UTF8BUFFSZ - n) buff' = take (UTF8BUFFSZ - n) buff \<and>
             utf8_decode (drop (UTF8BUFFSZ - n) buff') = Some x \<and>
             (x < 0x80 \<longrightarrow> n = 1 \<and> unat (buff' ! (UTF8BUFFSZ - 1)) = unat x)"
proof -
  from assms(2) obtain b0 b1 b2 b3 b4 b5 b6 b7 where b: "buff = [b0, b1, b2, b3, b4, b5, b6, b7]"
    by (auto simp: UTF8BUFFSZ_def elim: length8)
  from assms(1) show ?thesis
  proof (cases rule: word32_ranges)
    case 1
    with encode1 [OF 1, of b0 b1 b2 b3 b4 b5 b6 b7] show ?thesis
      unfolding b by (simp add: UTF8BUFFSZ_def)
  next
    case 2
    then have n: "\<not> x < 0x80" by simp
    from encode2 [OF 2, of b0 b1 b2 b3 b4 b5 b6 b7] obtain bs where "length bs = 2"
      "luaO_utf8esc [b0, b1, b2, b3, b4, b5, b6, b7] x = (2, [b0, b1, b2, b3, b4, b5] @ bs)"
      "utf8_decode bs = Some x"
      by blast
    with n show ?thesis
      unfolding b by (simp add: UTF8BUFFSZ_def)
  next
    case 3
    then have n: "\<not> x < 0x80" by (simp add: word_le_nat_alt word_less_nat_alt)
    from encode3 [OF 3, of b0 b1 b2 b3 b4 b5 b6 b7] obtain bs where "length bs = 3"
      "luaO_utf8esc [b0, b1, b2, b3, b4, b5, b6, b7] x = (3, [b0, b1, b2, b3, b4] @ bs)"
      "utf8_decode bs = Some x"
      by blast
    with n show ?thesis
      unfolding b by (simp add: UTF8BUFFSZ_def)
  next
    case 4
    then have n: "\<not> x < 0x80" by (simp add: word_le_nat_alt word_less_nat_alt)
    from encode4 [OF 4, of b0 b1 b2 b3 b4 b5 b6 b7] obtain bs where "length bs = 4"
      "luaO_utf8esc [b0, b1, b2, b3, b4, b5, b6, b7] x = (4, [b0, b1, b2, b3] @ bs)"
      "utf8_decode bs = Some x"
      by blast
    with n show ?thesis
      unfolding b by (simp add: UTF8BUFFSZ_def)
  next
    case 5
    then have n: "\<not> x < 0x80" by (simp add: word_le_nat_alt word_less_nat_alt)
    from encode5 [OF 5, of b0 b1 b2 b3 b4 b5 b6 b7] obtain bs where "length bs = 5"
      "luaO_utf8esc [b0, b1, b2, b3, b4, b5, b6, b7] x = (5, [b0, b1, b2] @ bs)"
      "utf8_decode bs = Some x"
      by blast
    with n show ?thesis
      unfolding b by (simp add: UTF8BUFFSZ_def)
  next
    case 6
    then have n: "\<not> x < 0x80" by (simp add: word_le_nat_alt word_less_nat_alt)
    from encode6 [OF 6, of b0 b1 b2 b3 b4 b5 b6 b7] obtain bs where "length bs = 6"
      "luaO_utf8esc [b0, b1, b2, b3, b4, b5, b6, b7] x = (6, [b0, b1] @ bs)"
      "utf8_decode bs = Some x"
      by blast
    with n show ?thesis
      unfolding b by (simp add: UTF8BUFFSZ_def)
  qed
qed

text \<open>The theorem at the euro sign, \<open>0x20AC\<close>, in a buffer of zeros.\<close>

theorem luaO_utf8esc_encodes_witness:
  "(0x20AC :: 32 word) \<le> 0x7FFFFFFF \<and> length [0, 0, 0, 0, 0, 0, 0, 0 :: 8 word] = UTF8BUFFSZ \<and>
   luaO_utf8esc [0, 0, 0, 0, 0, 0, 0, 0] 0x20AC = (3, [0, 0, 0, 0, 0, 0xE2, 0x82, 0xAC]) \<and>
   utf8_decode [0xE2, 0x82, 0xAC] = Some 0x20AC"
proof -
  have e: "luaO_utf8esc [0, 0, 0, 0, 0, 0, 0, 0] 0x20AC = (3, [0, 0, 0, 0, 0, 0xE2, 0x82, 0xAC])"
    by (simp add: range3 cast_char_def)
  from e luaO_utf8esc_encodes [of "0x20AC" "[0, 0, 0, 0, 0, 0, 0, 0]"]
  show ?thesis
    by (simp add: UTF8BUFFSZ_def)
qed

section \<open>Decimal numerals to integers\<close>



























section \<open>Interning of short strings\<close>

subsection \<open>The string table\<close>

lemma in_concat_nth:
  "a \<in> set (concat xss) \<longleftrightarrow> (\<exists>i < length xss. a \<in> set (xss ! i))"
proof
  assume "a \<in> set (concat xss)"
  then obtain xs where "xs \<in> set xss" "a \<in> set xs" by auto
  then show "\<exists>i < length xss. a \<in> set (xss ! i)"
    by (metis in_set_conv_nth)
next
  assume "\<exists>i < length xss. a \<in> set (xss ! i)"
  then obtain i where "i < length xss" "a \<in> set (xss ! i)" by blast
  then show "a \<in> set (concat xss)"
    using nth_mem by auto
qed

lemma lmod_less:
  assumes "1 \<le> sz" and "sz < 2 ^ 31"
  shows "lmod s sz < nat sz"
proof -
  have "s AND (word_of_int sz - 1) \<le> word_of_int sz - 1"
    by (rule word_and_le1)
  then have 1: "lmod s sz \<le> unat (word_of_int sz - 1 :: 32 word)"
    by (simp add: lmod_def word_le_nat_alt)
  have 2: "(word_of_int sz - 1 :: 32 word) = word_of_int (sz - 1)"
    by simp
  have "uint (word_of_int (sz - 1) :: 32 word) = (sz - 1) mod 2 ^ 32"
    by (simp only: uint_word_of_int) simp
  also have "\<dots> = sz - 1" using assms by simp
  finally have 3: "unat (word_of_int (sz - 1) :: 32 word) = nat (sz - 1)"
    by (simp only: unat_eq_nat_uint)
  have "lmod s sz \<le> nat (sz - 1)"
    using 1 unfolding 2 3 .
  with assms show ?thesis by linarith
qed

lemma strt_strings_iff:
  "a \<in> set (strt_strings st) \<longleftrightarrow>
     (\<exists>i < length (strt_hash (st_strt st)). a \<in> set (strt_hash (st_strt st) ! i))"
  unfolding strt_strings_def by (rule in_concat_nth)

lemma strt_wfI:
  assumes "1 \<le> length (strt_hash (st_strt st))"
    and "length (strt_hash (st_strt st)) < 2 ^ 31"
    and "strt_size (st_strt st) = int (length (strt_hash (st_strt st)))"
    and "\<And>i a. i < length (strt_hash (st_strt st)) \<Longrightarrow> a \<in> set (strt_hash (st_strt st) ! i) \<Longrightarrow>
           entry_ok h st i a"
    and "\<And>a. a \<in> dom (st_heap st) \<Longrightarrow> a < st_free st"
  shows "strt_wf h st"
  using assms unfolding strt_wf_def Let_def by blast

lemma strt_wf_size:
  assumes "strt_wf h st"
  shows "1 \<le> length (strt_hash (st_strt st))" "length (strt_hash (st_strt st)) < 2 ^ 31"
    "strt_size (st_strt st) = int (length (strt_hash (st_strt st)))"
  using assms unfolding strt_wf_def Let_def by blast+

lemma strt_wf_entry:
  assumes "strt_wf h st" and "i < length (strt_hash (st_strt st))"
    and "a \<in> set (strt_hash (st_strt st) ! i)"
  shows "entry_ok h st i a"
  using assms unfolding strt_wf_def Let_def by blast

lemma strt_wf_dom:
  assumes "strt_wf h st" and "st_heap st a = Some ts"
  shows "a < st_free st"
  using assms unfolding strt_wf_def Let_def by blast

lemma entry_okE:
  assumes "entry_ok h st i a"
  obtains ts where "st_heap st a = Some ts" "ts_hash ts = h (st_seed st) (ts_contents ts)"
    "ts_shrlen ts = int (length (ts_contents ts))" "length (ts_contents ts) \<le> LUAI_MAXSHORTLEN"
    "lmod (ts_hash ts) (strt_size (st_strt st)) = i" "a < st_free st"
  using assms unfolding entry_ok_def by (auto split: option.splits)

lemma entry_ok_mono:
  assumes "entry_ok h st i a" and "st_heap st' a = st_heap st a" and "st_free st \<le> st_free st'"
    and "st_seed st' = st_seed st" and "strt_size (st_strt st') = strt_size (st_strt st)"
  shows "entry_ok h st' i a"
  using assms unfolding entry_ok_def by (auto split: option.splits)

lemma strt_wf_live:
  assumes "strt_wf h st" and "a \<in> set (strt_strings st)"
  obtains ts where "st_heap st a = Some ts" "ts_hash ts = h (st_seed st) (ts_contents ts)"
    "ts_shrlen ts = int (length (ts_contents ts))" "length (ts_contents ts) \<le> LUAI_MAXSHORTLEN"
    "a \<in> set (strt_hash (st_strt st) ! lmod (ts_hash ts) (strt_size (st_strt st)))"
    "a < st_free st"
proof -
  from assms(2) obtain i where i: "i < length (strt_hash (st_strt st))"
    "a \<in> set (strt_hash (st_strt st) ! i)"
    by (auto simp: strt_strings_iff)
  with assms(1) have "entry_ok h st i a"
    by (rule strt_wf_entry)
  then show thesis
    using i that by (elim entry_okE) blast
qed

text \<open>Resizing keeps the strings of the table.\<close>

lemma resize_fields:
  "st_heap (luaS_resize st n) = st_heap st" "st_free (luaS_resize st n) = st_free st"
  "st_seed (luaS_resize st n) = st_seed st" "strt_size (st_strt (luaS_resize st n)) = n"
  "length (strt_hash (st_strt (luaS_resize st n))) = nat n"
  "strt_nuse (st_strt (luaS_resize st n)) = strt_nuse (st_strt st)"
  by (simp_all add: luaS_resize_def)

lemma resize_bucket:
  assumes "i < nat n"
  shows "strt_hash (st_strt (luaS_resize st n)) ! i =
    filter (\<lambda>a. lmod (hashof st a) n = i) (strt_strings st)"
  using assms by (simp add: luaS_resize_def strt_strings_def)

lemma resize_live:
  assumes "1 \<le> n" and "n < 2 ^ 31"
  shows "set (strt_strings (luaS_resize st n)) = set (strt_strings st)"
proof -
  have "a \<in> set (strt_strings (luaS_resize st n)) \<longleftrightarrow> a \<in> set (strt_strings st)" for a
  proof
    assume "a \<in> set (strt_strings (luaS_resize st n))"
    then obtain i where "i < nat n" "a \<in> set (strt_hash (st_strt (luaS_resize st n)) ! i)"
      unfolding strt_strings_iff resize_fields by blast
    then show "a \<in> set (strt_strings st)"
      by (simp add: resize_bucket)
  next
    assume a: "a \<in> set (strt_strings st)"
    let ?i = "lmod (hashof st a) n"
    have i: "?i < nat n" using assms by (rule lmod_less)
    with a have "a \<in> set (strt_hash (st_strt (luaS_resize st n)) ! ?i)"
      by (simp add: resize_bucket)
    with i show "a \<in> set (strt_strings (luaS_resize st n))"
      unfolding strt_strings_iff resize_fields by blast
  qed
  then show ?thesis by blast
qed

lemma resize_wf:
  assumes wf: "strt_wf h st" and n: "1 \<le> n" "n < 2 ^ 31"
  shows "strt_wf h (luaS_resize st n)"
proof (rule strt_wfI)
  show "1 \<le> length (strt_hash (st_strt (luaS_resize st n)))"
    using n by (simp add: resize_fields)
  show "length (strt_hash (st_strt (luaS_resize st n))) < 2 ^ 31"
    using n by (simp add: resize_fields)
  show "strt_size (st_strt (luaS_resize st n)) = int (length (strt_hash (st_strt (luaS_resize st n))))"
    using n by (simp add: resize_fields)
next
  fix i a
  assume i: "i < length (strt_hash (st_strt (luaS_resize st n)))"
    and a: "a \<in> set (strt_hash (st_strt (luaS_resize st n)) ! i)"
  from i have i': "i < nat n" by (simp add: resize_fields)
  with a have l: "a \<in> set (strt_strings st)" and m: "lmod (hashof st a) n = i"
    by (simp_all add: resize_bucket)
  from wf l obtain ts where ts: "st_heap st a = Some ts"
    "ts_hash ts = h (st_seed st) (ts_contents ts)"
    "ts_shrlen ts = int (length (ts_contents ts))" "length (ts_contents ts) \<le> LUAI_MAXSHORTLEN"
    "a < st_free st"
    by (rule strt_wf_live)
  from ts(1) m have "lmod (ts_hash ts) n = i" by (simp add: hashof_def)
  with ts show "entry_ok h (luaS_resize st n) i a"
    by (simp add: entry_ok_def resize_fields)
next
  fix a
  assume "a \<in> dom (st_heap (luaS_resize st n))"
  then obtain ts where "st_heap st a = Some ts"
    by (auto simp: resize_fields)
  with wf have "a < st_free st" by (rule strt_wf_dom)
  then show "a < st_free (luaS_resize st n)" by (simp add: resize_fields)
qed

lemma str_bytes_resize: "str_bytes (luaS_resize st n) a = str_bytes st a"
  by (simp add: str_bytes_def resize_fields)

lemma resize_strt_nodup:
  assumes "strt_nodup st" and "1 \<le> n" and "n < 2 ^ 31"
  shows "strt_nodup (luaS_resize st n)"
  using assms(1) unfolding strt_nodup_def
  by (simp add: resize_live [OF assms(2,3)] str_bytes_resize)

text \<open>Removing a string leaves a part of each chain.\<close>

lemma remove_fields:
  "st_heap (luaS_remove st a) = st_heap st" "st_free (luaS_remove st a) = st_free st"
  "st_seed (luaS_remove st a) = st_seed st"
  "strt_size (st_strt (luaS_remove st a)) = strt_size (st_strt st)"
  "length (strt_hash (st_strt (luaS_remove st a))) = length (strt_hash (st_strt st))"
  by (simp_all add: luaS_remove_def Let_def)

lemma remove_bucket:
  assumes "i < length (strt_hash (st_strt st))"
    and "b \<in> set (strt_hash (st_strt (luaS_remove st a)) ! i)"
  shows "b \<in> set (strt_hash (st_strt st) ! i)"
proof (cases "i = lmod (hashof st a) (strt_size (st_strt st))")
  case True
  with assms have "b \<in> set (remove1 a (strt_hash (st_strt st) ! i))"
    by (simp add: luaS_remove_def Let_def)
  then show ?thesis using notin_set_remove1 by fast
next
  case False
  with assms show ?thesis
    by (simp add: luaS_remove_def Let_def)
qed

lemma remove_live:
  assumes "b \<in> set (strt_strings (luaS_remove st a))"
  shows "b \<in> set (strt_strings st)"
  using assms unfolding strt_strings_iff remove_fields
  by (blast intro: remove_bucket)

lemma remove_wf:
  assumes wf: "strt_wf h st"
  shows "strt_wf h (luaS_remove st a)"
proof (rule strt_wfI)
  show "1 \<le> length (strt_hash (st_strt (luaS_remove st a)))"
    using strt_wf_size [OF wf] by (simp add: remove_fields)
  show "length (strt_hash (st_strt (luaS_remove st a))) < 2 ^ 31"
    using strt_wf_size [OF wf] by (simp add: remove_fields)
  show "strt_size (st_strt (luaS_remove st a)) =
      int (length (strt_hash (st_strt (luaS_remove st a))))"
    using strt_wf_size [OF wf] by (simp add: remove_fields)
next
  fix i b
  assume i: "i < length (strt_hash (st_strt (luaS_remove st a)))"
    and b: "b \<in> set (strt_hash (st_strt (luaS_remove st a)) ! i)"
  from i have i': "i < length (strt_hash (st_strt st))" by (simp add: remove_fields)
  from i' b have "b \<in> set (strt_hash (st_strt st) ! i)" by (rule remove_bucket)
  with wf i' have "entry_ok h st i b" by (rule strt_wf_entry)
  then show "entry_ok h (luaS_remove st a) i b"
    by (rule entry_ok_mono) (simp_all add: remove_fields)
next
  fix b
  assume "b \<in> dom (st_heap (luaS_remove st a))"
  then obtain ts where "st_heap st b = Some ts"
    by (auto simp: remove_fields)
  with wf have "b < st_free st" by (rule strt_wf_dom)
  then show "b < st_free (luaS_remove st a)" by (simp add: remove_fields)
qed

lemma str_bytes_remove: "str_bytes (luaS_remove st a) b = str_bytes st b"
  by (simp add: str_bytes_def remove_fields)

lemma remove_strt_nodup:
  assumes "strt_nodup st"
  shows "strt_nodup (luaS_remove st a)"
  using assms unfolding strt_nodup_def str_bytes_remove
  by (blast intro: remove_live)

text \<open>The search finds the string of the table with the bytes looked for.\<close>

lemma shr_search_Some:
  assumes wf: "strt_wf h st" and s: "shr_search st hv bytes = Some a"
  shows "a \<in> set (strt_strings st)" and "str_bytes st a = Some bytes"
proof -
  let ?i = "lmod hv (strt_size (st_strt st))"
  have i: "?i < length (strt_hash (st_strt st))"
    using lmod_less [of "strt_size (st_strt st)" hv] strt_wf_size [OF wf] by simp
  from s have "a \<in> set (strt_hash (st_strt st) ! ?i)" and m: "shr_match st hv bytes a"
    unfolding shr_search_def by (auto simp: find_Some_iff)
  with i show "a \<in> set (strt_strings st)"
    unfolding strt_strings_iff by blast
  from m show "str_bytes st a = Some bytes"
    by (auto simp: shr_match_def str_bytes_def split: option.splits)
qed

lemma shr_search_None:
  assumes wf: "strt_wf h st" and s: "shr_search st (h (st_seed st) bytes) bytes = None"
    and b: "b \<in> set (strt_strings st)"
  shows "str_bytes st b \<noteq> Some bytes"
proof
  assume eq: "str_bytes st b = Some bytes"
  from wf b obtain ts where ts: "st_heap st b = Some ts"
    "ts_hash ts = h (st_seed st) (ts_contents ts)"
    "ts_shrlen ts = int (length (ts_contents ts))"
    "b \<in> set (strt_hash (st_strt st) ! lmod (ts_hash ts) (strt_size (st_strt st)))"
    by (rule strt_wf_live)
  from eq ts(1) have c: "ts_contents ts = bytes" by (simp add: str_bytes_def)
  from ts c have "shr_match st (h (st_seed st) bytes) bytes b"
    by (simp add: shr_match_def)
  moreover from ts(2,4) c
  have "b \<in> set (strt_hash (st_strt st) ! lmod (h (st_seed st) bytes) (strt_size (st_strt st)))"
    by simp
  ultimately show False
    using s unfolding shr_search_def by (auto simp: find_None_iff)
qed

lemma shr_search_live:
  assumes wf: "strt_wf h st" and int: "strt_nodup st"
    and b: "b \<in> set (strt_strings st)" and eq: "str_bytes st b = Some bytes"
  shows "shr_search st (h (st_seed st) bytes) bytes = Some b"
proof (cases "shr_search st (h (st_seed st) bytes) bytes")
  case None
  with wf have "str_bytes st b \<noteq> Some bytes" using b by (rule shr_search_None)
  with eq show ?thesis by simp
next
  case (Some a)
  with wf have "a \<in> set (strt_strings st)" "str_bytes st a = Some bytes"
    by (rule shr_search_Some)+
  with int b eq have "a = b"
    unfolding strt_nodup_def by auto
  with Some show ?thesis by simp
qed

text \<open>The chains hold each string once.\<close>

lemma concat_cons_update:
  assumes "i < length xss"
  shows "set (concat (xss[i := a # xss ! i])) = insert a (set (concat xss))"
    and "distinct (concat (xss[i := a # xss ! i])) \<longleftrightarrow>
      a \<notin> set (concat xss) \<and> distinct (concat xss)"
  using assms
proof (induction xss arbitrary: i)
  case Nil
  {
    case 1
    then show ?case by simp
  next
    case 2
    then show ?case by simp
  }
next
  case (Cons xs xss)
  {
    case 1
    then show ?case using Cons.IH(1) by (cases i) auto
  next
    case 2
    then show ?case using Cons.IH by (cases i) auto
  }
qed

lemma concat_remove1_update:
  assumes "i < length xss" and "distinct (concat xss)" and "a \<in> set (xss ! i)"
  shows "set (concat (xss[i := remove1 a (xss ! i)])) = set (concat xss) - {a} \<and>
    distinct (concat (xss[i := remove1 a (xss ! i)]))"
  using assms
proof (induction xss arbitrary: i)
  case Nil
  then show ?case by simp
next
  case (Cons xs xss)
  show ?case
  proof (cases i)
    case 0
    with Cons.prems show ?thesis by auto
  next
    case (Suc j)
    with Cons.prems have j: "j < length xss" "distinct (concat xss)" "a \<in> set (xss ! j)"
      by simp_all
    then have ih: "set (concat (xss[j := remove1 a (xss ! j)])) = set (concat xss) - {a}"
      "distinct (concat (xss[j := remove1 a (xss ! j)]))"
      using Cons.IH by blast+
    from j have "a \<in> set (concat xss)"
      using nth_mem by auto
    with Cons.prems(2) have "a \<notin> set xs" by auto
    with Cons.prems(2) ih Suc show ?thesis by auto
  qed
qed

lemma distinct_rehash:
  assumes "distinct xs" and "distinct js"
  shows "distinct (concat (map (\<lambda>i. filter (\<lambda>a. f a = i) xs) js))"
  using assms(2)
proof (induction js)
  case Nil
  then show ?case by simp
next
  case (Cons j js)
  with assms(1) show ?case by auto
qed

lemma resize_strings:
  "strt_strings (luaS_resize st n) =
    concat (map (\<lambda>i. filter (\<lambda>a. lmod (hashof st a) n = i) (strt_strings st)) [0..<nat n])"
  by (simp add: luaS_resize_def strt_strings_def)

lemma resize_complete:
  assumes c: "strt_complete st" and n: "1 \<le> n" "n < 2 ^ 31"
  shows "strt_complete (luaS_resize st n)"
proof -
  from c have "distinct (strt_strings st)" by (simp add: strt_complete_def)
  then have "distinct (strt_strings (luaS_resize st n))"
    unfolding resize_strings by (rule distinct_rehash) simp
  moreover from c have "\<forall>a ts. st_heap (luaS_resize st n) a = Some ts \<longrightarrow> strisshr ts \<longrightarrow>
      a \<in> set (strt_strings (luaS_resize st n))"
    unfolding resize_live [OF n] resize_fields by (simp add: strt_complete_def)
  ultimately show ?thesis by (simp add: strt_complete_def)
qed

lemma resize_inv:
  assumes "str_inv h st" and "1 \<le> n" and "n < 2 ^ 31"
  shows "str_inv h (luaS_resize st n)"
  using assms by (simp add: str_inv_def resize_wf resize_complete resize_strt_nodup)

text \<open>Unlinking a string of the table takes it out of the table, and nothing else.\<close>

lemma remove_strings:
  assumes wf: "strt_wf h st" and d: "distinct (strt_strings st)"
    and a: "a \<in> set (strt_strings st)"
  shows "set (strt_strings (luaS_remove st a)) = set (strt_strings st) - {a}"
    and "distinct (strt_strings (luaS_remove st a))"
proof -
  let ?i = "lmod (hashof st a) (strt_size (st_strt st))"
  from wf a obtain ts where ts: "st_heap st a = Some ts"
    "a \<in> set (strt_hash (st_strt st) ! lmod (ts_hash ts) (strt_size (st_strt st)))"
    by (rule strt_wf_live)
  from ts(1) have h: "hashof st a = ts_hash ts" by (simp add: hashof_def)
  have i: "?i < length (strt_hash (st_strt st))"
    using lmod_less [of "strt_size (st_strt st)" "hashof st a"] strt_wf_size [OF wf] by simp
  have m: "a \<in> set (strt_hash (st_strt st) ! ?i)"
    using ts(2) by (simp only: h)
  have s: "strt_strings (luaS_remove st a) =
      concat ((strt_hash (st_strt st))[?i := remove1 a (strt_hash (st_strt st) ! ?i)])"
    by (simp add: luaS_remove_def Let_def strt_strings_def)
  from d have d': "distinct (concat (strt_hash (st_strt st)))"
    by (simp add: strt_strings_def)
  note r = concat_remove1_update [OF i d' m]
  from r show "set (strt_strings (luaS_remove st a)) = set (strt_strings st) - {a}"
    unfolding s by (simp add: strt_strings_def)
  from r show "distinct (strt_strings (luaS_remove st a))"
    unfolding s by simp
qed

text \<open>Linking a new string at the head of its chain.\<close>

lemma link_props:
  assumes wf: "strt_wf h st" and cp: "strt_complete st" and int: "strt_nodup st"
    and len: "length bytes \<le> LUAI_MAXSHORTLEN"
    and fresh: "\<And>b. b \<in> set (strt_strings st) \<Longrightarrow> str_bytes st b \<noteq> Some bytes"
    and st': "st' =
      st\<lparr>st_heap := (st_heap st)(st_free st \<mapsto>
             \<lparr>ts_tt = tg, ts_extra = 0, ts_shrlen = int (length bytes),
              ts_hash = h (st_seed st) bytes, ts_contents = bytes\<rparr>),
         st_free := st_free st + 1,
         st_strt := (st_strt st)\<lparr>
           strt_hash := (strt_hash (st_strt st))
             [lmod (h (st_seed st) bytes) (strt_size (st_strt st)) :=
                st_free st #
                strt_hash (st_strt st) ! lmod (h (st_seed st) bytes) (strt_size (st_strt st))],
           strt_nuse := strt_nuse (st_strt st) + 1\<rparr>\<rparr>"
  shows "strt_wf h st'" and "strt_nodup st'" and "st_free st \<in> set (strt_strings st')"
    and "str_bytes st' (st_free st) = Some bytes" and "strt_complete st'"
    and "\<forall>b < st_free st. st_heap st' b = st_heap st b"
proof -
  let ?i = "lmod (h (st_seed st) bytes) (strt_size (st_strt st))"
  let ?a = "st_free st"
  note sz = strt_wf_size [OF wf]
  have i: "?i < length (strt_hash (st_strt st))"
    using lmod_less [of "strt_size (st_strt st)" "h (st_seed st) bytes"] sz by simp
  have f: "st_free st' = ?a + 1" "st_seed st' = st_seed st"
    "strt_size (st_strt st') = strt_size (st_strt st)"
    "length (strt_hash (st_strt st')) = length (strt_hash (st_strt st))"
    by (simp_all add: st')
  have hp: "st_heap st' b = (if b = ?a then Some \<lparr>ts_tt = tg, ts_extra = 0,
      ts_shrlen = int (length bytes), ts_hash = h (st_seed st) bytes, ts_contents = bytes\<rparr>
      else st_heap st b)" for b
    by (simp add: st')
  have bk: "set (strt_hash (st_strt st') ! j) =
      (if j = ?i then insert ?a (set (strt_hash (st_strt st) ! j))
       else set (strt_hash (st_strt st) ! j))"
    if "j < length (strt_hash (st_strt st))" for j
    using that by (simp add: st' nth_list_update)
  have lv: "b \<in> set (strt_strings st') \<longleftrightarrow> b = ?a \<or> b \<in> set (strt_strings st)" for b
  proof
    assume "b \<in> set (strt_strings st')"
    then obtain j where j: "j < length (strt_hash (st_strt st))"
      "b \<in> set (strt_hash (st_strt st') ! j)"
      unfolding strt_strings_iff f by blast
    from j(2) have "b = ?a \<or> b \<in> set (strt_hash (st_strt st) ! j)"
      unfolding bk [OF j(1)] by (simp split: if_splits)
    with j(1) show "b = ?a \<or> b \<in> set (strt_strings st)"
      unfolding strt_strings_iff by blast
  next
    assume "b = ?a \<or> b \<in> set (strt_strings st)"
    then show "b \<in> set (strt_strings st')"
    proof
      assume "b = ?a"
      with i have "b \<in> set (strt_hash (st_strt st') ! ?i)"
        by (simp add: bk)
      with i show ?thesis unfolding strt_strings_iff f by blast
    next
      assume "b \<in> set (strt_strings st)"
      then obtain j where j: "j < length (strt_hash (st_strt st))"
        "b \<in> set (strt_hash (st_strt st) ! j)"
        unfolding strt_strings_iff by blast
      then have "b \<in> set (strt_hash (st_strt st') ! j)"
        unfolding bk [OF j(1)] by auto
      with j(1) show ?thesis unfolding strt_strings_iff f by blast
    qed
  qed
  have old: "b \<noteq> ?a \<and> str_bytes st' b = str_bytes st b" if "b \<in> set (strt_strings st)" for b
  proof -
    from wf that obtain ts where "b < st_free st" by (rule strt_wf_live)
    then show ?thesis by (simp add: str_bytes_def hp)
  qed
  show new: "str_bytes st' ?a = Some bytes"
    by (simp add: str_bytes_def hp)
  show "\<forall>b < st_free st. st_heap st' b = st_heap st b"
    by (simp add: hp)
  show "strt_complete st'"
    unfolding strt_complete_def
  proof (intro conjI allI impI)
    have s: "strt_strings st' = concat ((strt_hash (st_strt st))[?i := ?a # strt_hash (st_strt st) ! ?i])"
      by (simp add: st' strt_strings_def)
    have "?a \<notin> set (strt_strings st)"
      using old by blast
    moreover from cp have "distinct (strt_strings st)"
      by (simp add: strt_complete_def)
    ultimately show "distinct (strt_strings st')"
      unfolding s concat_cons_update(2) [OF i] by (simp add: strt_strings_def)
  next
    fix b ts
    assume b: "st_heap st' b = Some ts" and sh: "strisshr ts"
    show "b \<in> set (strt_strings st')"
    proof (cases "b = ?a")
      case True
      then show ?thesis by (simp add: lv)
    next
      case False
      with b have "st_heap st b = Some ts" by (simp add: hp)
      with cp sh have "b \<in> set (strt_strings st)"
        unfolding strt_complete_def by blast
      then show ?thesis by (simp add: lv)
    qed
  qed
  show "?a \<in> set (strt_strings st')"
    by (simp add: lv)
  show "strt_wf h st'"
  proof (rule strt_wfI)
    show "1 \<le> length (strt_hash (st_strt st'))" using sz by (simp add: f)
    show "length (strt_hash (st_strt st')) < 2 ^ 31" using sz by (simp add: f)
    show "strt_size (st_strt st') = int (length (strt_hash (st_strt st')))"
      using sz by (simp add: f)
  next
    fix j b
    assume j: "j < length (strt_hash (st_strt st'))"
      and b: "b \<in> set (strt_hash (st_strt st') ! j)"
    from j have j': "j < length (strt_hash (st_strt st))" by (simp add: f)
    from b have "(j = ?i \<and> b = ?a) \<or> b \<in> set (strt_hash (st_strt st) ! j)"
      unfolding bk [OF j'] by (simp split: if_splits)
    then show "entry_ok h st' j b"
    proof
      assume "j = ?i \<and> b = ?a"
      with len show ?thesis
        by (simp add: entry_ok_def f hp)
    next
      assume m: "b \<in> set (strt_hash (st_strt st) ! j)"
      with wf j' have e: "entry_ok h st j b" by (rule strt_wf_entry)
      then have "b < st_free st" by (rule entry_okE)
      then have "st_heap st' b = st_heap st b" by (simp add: hp)
      with e show ?thesis
        by (rule entry_ok_mono) (simp_all add: f)
    qed
  next
    fix b
    assume "b \<in> dom (st_heap st')"
    then have "b = ?a \<or> b \<in> dom (st_heap st)"
      by (auto simp: hp split: if_splits)
    then show "b < st_free st'"
    proof
      assume "b = ?a"
      then show ?thesis by (simp add: f)
    next
      assume "b \<in> dom (st_heap st)"
      then obtain ts where "st_heap st b = Some ts" by blast
      with wf have "b < st_free st" by (rule strt_wf_dom)
      then show ?thesis by (simp add: f)
    qed
  qed
  show "strt_nodup st'"
    unfolding strt_nodup_def
  proof (intro ballI impI)
    fix x y
    assume x: "x \<in> set (strt_strings st')" and y: "y \<in> set (strt_strings st')"
      and eq: "str_bytes st' x = str_bytes st' y"
    from x y have c: "x = ?a \<or> x \<in> set (strt_strings st)" "y = ?a \<or> y \<in> set (strt_strings st)"
      by (simp_all add: lv)
    show "x = y"
    proof (cases "x = ?a")
      case xa: True
      show ?thesis
      proof (cases "y = ?a")
        case True
        with xa show ?thesis by simp
      next
        case False
        with c have ly: "y \<in> set (strt_strings st)" by simp
        from eq xa new have "str_bytes st' y = Some bytes" by simp
        with old [OF ly] have "str_bytes st y = Some bytes" by simp
        with fresh [OF ly] show ?thesis by simp
      qed
    next
      case xa: False
      with c have lx: "x \<in> set (strt_strings st)" by simp
      show ?thesis
      proof (cases "y = ?a")
        case True
        with eq new have "str_bytes st' x = Some bytes" by simp
        with old [OF lx] have "str_bytes st x = Some bytes" by simp
        with fresh [OF lx] show ?thesis by simp
      next
        case False
        with c have ly: "y \<in> set (strt_strings st)" by simp
        from eq old [OF lx] old [OF ly] have "str_bytes st x = str_bytes st y" by simp
        with int lx ly show ?thesis unfolding strt_nodup_def by blast
      qed
    qed
  qed
qed

text \<open>A short string that is not in the table is created, and the table stays in order.\<close>

lemma internshrstr_None_eq:
  assumes none: "shr_search st (h (st_seed st) bytes) bytes = None"
  shows "internshrstr h True st bytes =
    (let st1 = (if strt_size (st_strt st) < strt_nuse (st_strt st) \<and>
                   2 * strt_size (st_strt st) < 2 ^ 31
                then luaS_resize st (2 * strt_size (st_strt st)) else st)
     in Inr (st_free st1,
      st1\<lparr>st_heap := (st_heap st1)(st_free st1 \<mapsto>
             \<lparr>ts_tt = LUA_VSHRSTR, ts_extra = 0, ts_shrlen = int (length bytes),
              ts_hash = h (st_seed st) bytes, ts_contents = bytes\<rparr>),
         st_free := st_free st1 + 1,
         st_strt := (st_strt st1)\<lparr>
           strt_hash := (strt_hash (st_strt st1))
             [lmod (h (st_seed st) bytes) (strt_size (st_strt st1)) :=
                st_free st1 #
                strt_hash (st_strt st1) ! lmod (h (st_seed st) bytes) (strt_size (st_strt st1))],
           strt_nuse := strt_nuse (st_strt st1) + 1\<rparr>\<rparr>))"
  unfolding internshrstr_def
  by (simp only: Let_def none option.case simp_thms if_False)

lemma internshrstr_None:
  assumes inv: "str_inv h st" and len: "length bytes \<le> LUAI_MAXSHORTLEN"
    and none: "shr_search st (h (st_seed st) bytes) bytes = None"
  shows "\<exists>st'. internshrstr h True st bytes = Inr (st_free st, st') \<and> str_inv h st' \<and>
    st_free st \<in> set (strt_strings st') \<and> str_bytes st' (st_free st) = Some bytes \<and>
    (\<forall>b < st_free st. st_heap st' b = st_heap st b)"
proof -
  from inv have wf: "strt_wf h st" and cp: "strt_complete st" and int: "strt_nodup st"
    by (simp_all add: str_inv_def)
  define st1 where "st1 =
    (if strt_size (st_strt st) < strt_nuse (st_strt st) \<and> 2 * strt_size (st_strt st) < 2 ^ 31
     then luaS_resize st (2 * strt_size (st_strt st)) else st)"
  note sz = strt_wf_size [OF wf]
  have n: "1 \<le> 2 * strt_size (st_strt st)" using sz by simp
  have f1: "st_heap st1 = st_heap st" "st_free st1 = st_free st" "st_seed st1 = st_seed st"
    by (simp_all add: st1_def resize_fields)
  have wf1: "strt_wf h st1"
    using wf n by (simp add: st1_def resize_wf)
  have cp1: "strt_complete st1"
    using cp n by (simp add: st1_def resize_complete)
  have int1: "strt_nodup st1"
    using int n by (simp add: st1_def resize_strt_nodup)
  have lv1: "set (strt_strings st1) = set (strt_strings st)"
    using n by (simp add: st1_def resize_live)
  have fresh: "str_bytes st1 b \<noteq> Some bytes" if "b \<in> set (strt_strings st1)" for b
  proof -
    from that have "b \<in> set (strt_strings st)" by (simp add: lv1)
    with wf none have "str_bytes st b \<noteq> Some bytes" by (rule shr_search_None)
    then show ?thesis by (simp add: str_bytes_def f1)
  qed
  define st2 where "st2 =
      st1\<lparr>st_heap := (st_heap st1)(st_free st1 \<mapsto>
             \<lparr>ts_tt = LUA_VSHRSTR, ts_extra = 0, ts_shrlen = int (length bytes),
              ts_hash = h (st_seed st) bytes, ts_contents = bytes\<rparr>),
         st_free := st_free st1 + 1,
         st_strt := (st_strt st1)\<lparr>
           strt_hash := (strt_hash (st_strt st1))
             [lmod (h (st_seed st) bytes) (strt_size (st_strt st1)) :=
                st_free st1 #
                strt_hash (st_strt st1) ! lmod (h (st_seed st) bytes) (strt_size (st_strt st1))],
           strt_nuse := strt_nuse (st_strt st1) + 1\<rparr>\<rparr>"
  have eq: "internshrstr h True st bytes = Inr (st_free st1, st2)"
    by (simp only: internshrstr_None_eq [where h = h and st = st and bytes = bytes, OF none]
        Let_def st2_def st1_def)
  note st2 = st2_def [folded f1(3)]
  from link_props [OF wf1 cp1 int1 len fresh st2] eq show ?thesis
    by (simp add: f1 str_inv_def)
qed

lemma internshrstr_inv:
  assumes inv: "str_inv h st" and len: "length bytes \<le> LUAI_MAXSHORTLEN"
    and r: "internshrstr h mem st bytes = Inr (a, st')"
  shows "str_inv h st' \<and> (\<forall>b < st_free st. st_heap st' b = st_heap st b)"
proof (cases "shr_search st (h (st_seed st) bytes) bytes")
  case (Some b)
  with r have "st' = st" by (simp add: internshrstr_def Let_def)
  with inv show ?thesis by simp
next
  case None
  with r have "mem" by (simp add: internshrstr_def Let_def split: if_splits)
  with r internshrstr_None [OF inv len None] show ?thesis by auto
qed

text \<open>Taking an object that is not in the table out of the store.\<close>

lemma drop_object:
  assumes wf: "strt_wf h st" and nd: "strt_nodup st" and d: "distinct (strt_strings st)"
    and na: "a \<notin> set (strt_strings st)"
    and c: "\<And>b ts. b \<noteq> a \<Longrightarrow> st_heap st b = Some ts \<Longrightarrow> strisshr ts \<Longrightarrow>
      b \<in> set (strt_strings st)"
  shows "str_inv h (st\<lparr>st_heap := (st_heap st)(a := None)\<rparr>)"
proof -
  let ?st = "st\<lparr>st_heap := (st_heap st)(a := None)\<rparr>"
  note sz = strt_wf_size [OF wf]
  have f: "st_free ?st = st_free st" "st_seed ?st = st_seed st" "st_strt ?st = st_strt st"
    "strt_strings ?st = strt_strings st"
    by (simp_all add: strt_strings_def)
  have hp: "st_heap ?st b = (if b = a then None else st_heap st b)" for b
    by simp
  have old: "str_bytes ?st b = str_bytes st b" if "b \<in> set (strt_strings st)" for b
    using that na by (auto simp: str_bytes_def)
  have "strt_wf h ?st"
  proof (rule strt_wfI)
    show "1 \<le> length (strt_hash (st_strt ?st))" using sz by simp
    show "length (strt_hash (st_strt ?st)) < 2 ^ 31" using sz by simp
    show "strt_size (st_strt ?st) = int (length (strt_hash (st_strt ?st)))"
      using sz by simp
  next
    fix j b
    assume "j < length (strt_hash (st_strt ?st))" "b \<in> set (strt_hash (st_strt ?st) ! j)"
    then have j: "j < length (strt_hash (st_strt st))" "b \<in> set (strt_hash (st_strt st) ! j)"
      by simp_all
    with wf have e: "entry_ok h st j b" by (rule strt_wf_entry)
    from j have "b \<in> set (strt_strings st)"
      unfolding strt_strings_iff by blast
    with na have "b \<noteq> a" by blast
    then have "st_heap ?st b = st_heap st b" by simp
    with e show "entry_ok h ?st j b"
      by (rule entry_ok_mono) simp_all
  next
    fix b
    assume "b \<in> dom (st_heap ?st)"
    then obtain ts where "st_heap st b = Some ts"
      by (auto split: if_splits)
    with wf have "b < st_free st" by (rule strt_wf_dom)
    then show "b < st_free ?st" by simp
  qed
  moreover have "strt_complete ?st"
    unfolding strt_complete_def f
  proof (intro conjI allI impI)
    show "distinct (strt_strings st)" by (rule d)
  next
    fix b ts
    assume "st_heap ?st b = Some ts" and s: "strisshr ts"
    then have "b \<noteq> a" "st_heap st b = Some ts"
      by (simp_all split: if_splits)
    then show "b \<in> set (strt_strings st)"
      using s by (rule c)
  qed
  moreover have "strt_nodup ?st"
    using nd unfolding strt_nodup_def f by (simp add: old)
  ultimately show ?thesis by (simp add: str_inv_def)
qed

text \<open>Freeing a string keeps the table in order.\<close>

lemma free_string_inv:
  assumes inv: "str_inv h st"
  shows "str_inv h (free_string st a)"
proof (cases "st_heap st a")
  case None
  with inv show ?thesis by (simp add: free_string_def)
next
  case (Some ts)
  from inv have wf: "strt_wf h st" and cp: "strt_complete st" and nd: "strt_nodup st"
    by (simp_all add: str_inv_def)
  from cp have d: "distinct (strt_strings st)"
    and c: "\<And>b t. st_heap st b = Some t \<Longrightarrow> strisshr t \<Longrightarrow> b \<in> set (strt_strings st)"
    unfolding strt_complete_def by blast+
  show ?thesis
  proof (cases "strisshr ts")
    case True
    let ?st1 = "luaS_remove st a"
    from Some True have a: "a \<in> set (strt_strings st)" by (rule c)
    note r = remove_strings [OF wf d a]
    have "str_inv h (?st1\<lparr>st_heap := (st_heap ?st1)(a := None)\<rparr>)"
    proof (rule drop_object)
      show "strt_wf h ?st1" using wf by (rule remove_wf)
      show "strt_nodup ?st1" using nd by (rule remove_strt_nodup)
      show "distinct (strt_strings ?st1)" by (rule r(2))
      show "a \<notin> set (strt_strings ?st1)" by (simp add: r(1))
    next
      fix b t
      assume "b \<noteq> a" and "st_heap ?st1 b = Some t" and s: "strisshr t"
      then have "b \<noteq> a" "st_heap st b = Some t"
        by (simp_all add: remove_fields)
      with s c have "b \<in> set (strt_strings st)" by blast
      with \<open>b \<noteq> a\<close> show "b \<in> set (strt_strings ?st1)" by (simp add: r(1))
    qed
    with Some True show ?thesis
      by (simp add: free_string_def Let_def)
  next
    case False
    have na: "a \<notin> set (strt_strings st)"
    proof
      assume "a \<in> set (strt_strings st)"
      with wf obtain t where "st_heap st a = Some t" "ts_shrlen t = int (length (ts_contents t))"
        by (rule strt_wf_live)
      with Some False show False by (simp add: strisshr_def)
    qed
    have "str_inv h (st\<lparr>st_heap := (st_heap st)(a := None)\<rparr>)"
      using wf nd d na
    proof (rule drop_object)
      fix b t
      assume "st_heap st b = Some t" and "strisshr t"
      then show "b \<in> set (strt_strings st)" by (rule c)
    qed
    with Some False show ?thesis
      by (simp add: free_string_def Let_def)
  qed
qed

lemma free_string_heap:
  assumes "b \<noteq> a"
  shows "st_heap (free_string st a) b = st_heap st b"
  using assms
  by (simp add: free_string_def Let_def remove_fields split: option.splits)

text \<open>A long string does not touch the table.\<close>

lemma createlngstrobj_inv:
  assumes inv: "str_inv h st"
    and r: "luaS_createlngstrobj mem st bytes = Inr (a, st')"
  shows "str_inv h st' \<and> (\<forall>b < st_free st. st_heap st' b = st_heap st b)"
proof -
  from inv have wf: "strt_wf h st" and cp: "strt_complete st" and int: "strt_nodup st"
    by (simp_all add: str_inv_def)
  from r have st': "st' = st\<lparr>st_heap := (st_heap st)(st_free st \<mapsto>
      \<lparr>ts_tt = LUA_VLNGSTR, ts_extra = 0, ts_shrlen = LSTRREG,
       ts_hash = st_seed st, ts_contents = bytes\<rparr>), st_free := st_free st + 1\<rparr>"
    by (auto simp: luaS_createlngstrobj_def Let_def split: if_splits)
  note sz = strt_wf_size [OF wf]
  have f: "st_free st' = st_free st + 1" "st_seed st' = st_seed st" "st_strt st' = st_strt st"
    "strt_strings st' = strt_strings st"
    by (simp_all add: st' strt_strings_def)
  have hp: "st_heap st' b = st_heap st b" if "b < st_free st" for b
    using that by (simp add: st')
  have old: "str_bytes st' b = str_bytes st b" if "b \<in> set (strt_strings st)" for b
  proof -
    from wf that obtain ts where "b < st_free st" by (rule strt_wf_live)
    then show ?thesis by (simp add: str_bytes_def hp)
  qed
  have "strt_wf h st'"
  proof (rule strt_wfI)
    show "1 \<le> length (strt_hash (st_strt st'))" using sz by (simp add: f)
    show "length (strt_hash (st_strt st')) < 2 ^ 31" using sz by (simp add: f)
    show "strt_size (st_strt st') = int (length (strt_hash (st_strt st')))"
      using sz by (simp add: f)
  next
    fix j b
    assume "j < length (strt_hash (st_strt st'))" "b \<in> set (strt_hash (st_strt st') ! j)"
    then have "j < length (strt_hash (st_strt st))" "b \<in> set (strt_hash (st_strt st) ! j)"
      by (simp_all add: f)
    with wf have e: "entry_ok h st j b" by (rule strt_wf_entry)
    then have "b < st_free st" by (rule entry_okE)
    then have "st_heap st' b = st_heap st b" by (rule hp)
    with e show "entry_ok h st' j b"
      by (rule entry_ok_mono) (simp_all add: f)
  next
    fix b
    assume "b \<in> dom (st_heap st')"
    then have "b = st_free st \<or> b \<in> dom (st_heap st)"
      by (auto simp: st' split: if_splits)
    then show "b < st_free st'"
    proof
      assume "b = st_free st"
      then show ?thesis by (simp add: f)
    next
      assume "b \<in> dom (st_heap st)"
      then obtain ts where "st_heap st b = Some ts" by blast
      with wf have "b < st_free st" by (rule strt_wf_dom)
      then show ?thesis by (simp add: f)
    qed
  qed
  moreover have "strt_nodup st'"
    using int unfolding strt_nodup_def f by (simp add: old)
  moreover have "strt_complete st'"
    unfolding strt_complete_def f
  proof (intro conjI allI impI)
    from cp show "distinct (strt_strings st)" by (simp add: strt_complete_def)
  next
    fix b ts
    assume b: "st_heap st' b = Some ts" and s: "strisshr ts"
    have "b \<noteq> st_free st"
    proof
      assume "b = st_free st"
      with b have "ts_shrlen ts = LSTRREG" by (auto simp: st')
      with s show False by (simp add: strisshr_def LSTRREG_def)
    qed
    with b have "st_heap st b = Some ts" by (simp add: st')
    with cp s show "b \<in> set (strt_strings st)"
      unfolding strt_complete_def by blast
  qed
  ultimately show ?thesis using hp by (simp add: str_inv_def)
qed

lemma luaS_newlstr_inv:
  assumes "str_inv h st" and "luaS_newlstr h mem st bytes = Inr (a, st')"
  shows "str_inv h st' \<and> (\<forall>b < st_free st. st_heap st' b = st_heap st b)"
proof (cases "length bytes \<le> LUAI_MAXSHORTLEN")
  case True
  with assms(2) have "internshrstr h mem st bytes = Inr (a, st')"
    by (simp add: luaS_newlstr_def)
  with assms(1) True show ?thesis by (rule internshrstr_inv)
next
  case False
  with assms(2) have "luaS_createlngstrobj mem st bytes = Inr (a, st')"
    by (simp add: luaS_newlstr_def)
  with assms(1) show ?thesis by (rule createlngstrobj_inv)
qed

text \<open>Every operation keeps the table in order, and so does a run of them.\<close>

lemma luaS_init_inv:
  assumes "1 \<le> n" and "n < 2 ^ 31"
  shows "str_inv h (luaS_init n sd)"
  using assms
  by (simp add: str_inv_def strt_wf_def strt_complete_def strt_nodup_def strt_strings_def
      luaS_init_def)

lemma str_step_inv:
  assumes "str_inv h st"
  shows "str_inv h (str_step h st op)"
proof (cases op)
  case (NewLStr bytes mem)
  show ?thesis
  proof (cases "luaS_newlstr h mem st bytes")
    case (Inl e)
    with NewLStr assms show ?thesis by (simp add: str_step_def)
  next
    case (Inr r)
    obtain a st' where r: "r = (a, st')" by (cases r)
    with Inr assms have "str_inv h st'"
      using luaS_newlstr_inv [of h st mem bytes a st'] by simp
    with NewLStr Inr r show ?thesis by (simp add: str_step_def)
  qed
next
  case (Free a)
  with assms show ?thesis
    by (simp add: str_step_def free_string_inv)
next
  case (Resize n)
  with assms show ?thesis
    by (simp add: str_step_def resize_inv)
qed

lemma str_run_inv:
  assumes "str_inv h st"
  shows "str_inv h (str_run h st ops)"
  using assms
proof (induction ops arbitrary: st)
  case Nil
  then show ?case by (simp add: str_run_def)
next
  case (Cons op ops)
  from Cons.prems have "str_inv h (str_step h st op)"
    by (rule str_step_inv)
  then have "str_inv h (str_run h (str_step h st op) ops)"
    by (rule Cons.IH)
  then show ?case by (simp add: str_run_def)
qed

text \<open>A string stays in the store, as it is, until it is freed.\<close>

lemma str_step_keeps:
  assumes inv: "str_inv h st" and a: "st_heap st a = Some ts" and op: "op \<noteq> Free a"
  shows "st_heap (str_step h st op) a = Some ts"
proof (cases op)
  case (NewLStr bytes mem)
  from inv have "strt_wf h st" by (simp add: str_inv_def)
  then have lt: "a < st_free st" using a by (rule strt_wf_dom)
  show ?thesis
  proof (cases "luaS_newlstr h mem st bytes")
    case (Inl e)
    with NewLStr a show ?thesis by (simp add: str_step_def)
  next
    case (Inr r)
    obtain b st' where r: "r = (b, st')" by (cases r)
    with Inr inv have "\<forall>b < st_free st. st_heap st' b = st_heap st b"
      using luaS_newlstr_inv [of h st mem bytes b st'] by simp
    with lt a have "st_heap st' a = Some ts" by simp
    with NewLStr Inr r show ?thesis by (simp add: str_step_def)
  qed
next
  case (Free b)
  with op have "a \<noteq> b" by simp
  then have "st_heap (free_string st b) a = st_heap st a"
    by (rule free_string_heap)
  with Free a show ?thesis by (simp add: str_step_def)
next
  case (Resize n)
  with a show ?thesis
    by (simp add: str_step_def resize_fields)
qed

lemma str_run_keeps:
  assumes "str_inv h st" and "st_heap st a = Some ts" and "Free a \<notin> set ops"
  shows "st_heap (str_run h st ops) a = Some ts"
  using assms
proof (induction ops arbitrary: st)
  case Nil
  then show ?case by (simp add: str_run_def)
next
  case (Cons op ops)
  from Cons.prems(3) have op: "op \<noteq> Free a" and ops: "Free a \<notin> set ops"
    by auto
  from Cons.prems(1) have "str_inv h (str_step h st op)"
    by (rule str_step_inv)
  moreover from Cons.prems(1,2) op have "st_heap (str_step h st op) a = Some ts"
    by (rule str_step_keeps)
  ultimately have "st_heap (str_run h (str_step h st op) ops) a = Some ts"
    using ops by (rule Cons.IH)
  then show ?case by (simp add: str_run_def)
qed

text \<open>The live short strings are the strings of the table.\<close>

lemma short_strings_iff:
  "a \<in> set (short_strings st) \<longleftrightarrow>
     a < st_free st \<and> (\<exists>ts. st_heap st a = Some ts \<and> strisshr ts)"
  by (auto simp: short_strings_def split: option.splits)

lemma short_strings_table:
  assumes inv: "str_inv h st"
  shows "set (short_strings st) = set (strt_strings st)"
proof -
  from inv have wf: "strt_wf h st" and cp: "strt_complete st"
    by (simp_all add: str_inv_def)
  have "a \<in> set (short_strings st) \<longleftrightarrow> a \<in> set (strt_strings st)" for a
  proof
    assume "a \<in> set (short_strings st)"
    then obtain ts where "st_heap st a = Some ts" "strisshr ts"
      unfolding short_strings_iff by blast
    with cp show "a \<in> set (strt_strings st)"
      unfolding strt_complete_def by blast
  next
    assume "a \<in> set (strt_strings st)"
    with wf obtain ts where "st_heap st a = Some ts"
      "ts_shrlen ts = int (length (ts_contents ts))" "a < st_free st"
      by (rule strt_wf_live)
    then show "a \<in> set (short_strings st)"
      unfolding short_strings_iff by (simp add: strisshr_def)
  qed
  then show ?thesis by blast
qed

lemma str_inv_interned:
  assumes "str_inv h st"
  shows "interned st"
proof -
  from assms have "strt_nodup st" by (simp add: str_inv_def)
  then show ?thesis
    unfolding interned_def strt_nodup_def short_strings_table [OF assms] .
qed

lemma short_strings_short:
  assumes inv: "str_inv h st" and a: "a \<in> set (short_strings st)"
  shows "\<exists>bytes. str_bytes st a = Some bytes \<and> length bytes \<le> LUAI_MAXSHORTLEN"
proof -
  from inv have wf: "strt_wf h st" by (simp add: str_inv_def)
  from a have "a \<in> set (strt_strings st)"
    by (simp add: short_strings_table [OF inv])
  with wf obtain ts where "st_heap st a = Some ts"
    "length (ts_contents ts) \<le> LUAI_MAXSHORTLEN"
    by (rule strt_wf_live)
  then show ?thesis by (simp add: str_bytes_def)
qed

text \<open>Creating a short string gives the live string with these bytes.\<close>

lemma luaS_newlstr_existing:
  assumes inv: "str_inv h st" and a: "a \<in> set (short_strings st)"
    and b: "str_bytes st a = Some bytes"
  shows "luaS_newlstr h mem st bytes = Inr (a, st)"
proof -
  from inv have wf: "strt_wf h st" and nd: "strt_nodup st"
    by (simp_all add: str_inv_def)
  from a have a': "a \<in> set (strt_strings st)"
    by (simp add: short_strings_table [OF inv])
  from short_strings_short [OF inv a] b have len: "length bytes \<le> LUAI_MAXSHORTLEN"
    by simp
  from wf nd a' b have s: "shr_search st (h (st_seed st) bytes) bytes = Some a"
    by (rule shr_search_live)
  have "internshrstr h mem st bytes = Inr (a, st)"
    unfolding internshrstr_def by (simp only: Let_def s option.case)
  with len show ?thesis
    by (simp only: luaS_newlstr_def if_True)
qed

lemma luaS_newlstr_short:
  assumes inv: "str_inv h st" and len: "length bytes \<le> LUAI_MAXSHORTLEN"
  shows "\<exists>a st'. luaS_newlstr h True st bytes = Inr (a, st') \<and> str_inv h st' \<and>
    a \<in> set (short_strings st') \<and> str_bytes st' a = Some bytes \<and>
    (\<forall>b \<in> set (short_strings st). str_bytes st b = Some bytes \<longrightarrow> a = b \<and> st' = st)"
proof (cases "shr_search st (h (st_seed st) bytes) bytes")
  case None
  from inv have wf: "strt_wf h st" by (simp add: str_inv_def)
  from internshrstr_None [OF inv len None] obtain st' where
    st': "internshrstr h True st bytes = Inr (st_free st, st')" "str_inv h st'"
    "st_free st \<in> set (strt_strings st')" "str_bytes st' (st_free st) = Some bytes"
    by blast
  from st'(1) len have r: "luaS_newlstr h True st bytes = Inr (st_free st, st')"
    by (simp only: luaS_newlstr_def if_True)
  from st'(3) have m: "st_free st \<in> set (short_strings st')"
    by (simp add: short_strings_table [OF st'(2)])
  have u: "\<forall>b \<in> set (short_strings st). str_bytes st b = Some bytes \<longrightarrow>
      st_free st = b \<and> st' = st"
    using shr_search_None [OF wf None] unfolding short_strings_table [OF inv] by blast
  from r st'(2) m st'(4) u show ?thesis by blast
next
  case (Some a)
  from inv have wf: "strt_wf h st" and nd: "strt_nodup st"
    by (simp_all add: str_inv_def)
  from wf Some have a: "a \<in> set (strt_strings st)" "str_bytes st a = Some bytes"
    by (rule shr_search_Some)+
  from a(1) have m: "a \<in> set (short_strings st)"
    by (simp add: short_strings_table [OF inv])
  have "internshrstr h True st bytes = Inr (a, st)"
    unfolding internshrstr_def by (simp only: Let_def Some option.case)
  with len have r: "luaS_newlstr h True st bytes = Inr (a, st)"
    by (simp only: luaS_newlstr_def if_True)
  have u: "\<forall>b \<in> set (short_strings st). str_bytes st b = Some bytes \<longrightarrow> a = b \<and> st = st"
    using nd a unfolding strt_nodup_def short_strings_table [OF inv] by auto
  from r inv m a(2) u show ?thesis by blast
qed

lemma short_strings_keep:
  assumes inv: "str_inv h st" and a: "a \<in> set (short_strings st)"
    and ops: "Free a \<notin> set ops"
  shows "a \<in> set (short_strings (str_run h st ops)) \<and>
    str_bytes (str_run h st ops) a = str_bytes st a"
proof -
  from a obtain ts where ts: "st_heap st a = Some ts" "strisshr ts"
    unfolding short_strings_iff by blast
  from inv ts(1) ops have k: "st_heap (str_run h st ops) a = Some ts"
    by (rule str_run_keeps)
  from inv have "str_inv h (str_run h st ops)"
    by (rule str_run_inv)
  then have "strt_wf h (str_run h st ops)"
    by (simp add: str_inv_def)
  then have "a < st_free (str_run h st ops)"
    using k by (rule strt_wf_dom)
  with k ts show ?thesis
    unfolding short_strings_iff by (simp add: str_bytes_def)
qed

text \<open>
  Claim C4.  No two live short strings have the same bytes, after every sequence of
  operations on the strings of a state.  The live short strings are the short string
  objects of the store: a string lives from its creation until the collector frees it.
  Starting from the empty table of \<^verbatim>\<open>luaS_init\<close>, after any run of creations (short or
  long, with or without memory), freeings and resizings of the table:
  two live short strings with identical bytes are the same object;
  every live short string has at most \<^verbatim>\<open>LUAI_MAXSHORTLEN\<close> bytes;
  a live short string stays live, with its bytes, through every further run that does not
  free it;
  and creating a string of at most \<^verbatim>\<open>LUAI_MAXSHORTLEN\<close> bytes returns a live short
  string with these bytes, which is the one that was live, the state unchanged, if there
  was one, and which every later creation of the same bytes returns again, with or
  without memory and with the state unchanged, whatever creations, resizings and freeings
  of other strings happen in between.
\<close>

theorem short_strings_interned:
  assumes "1 \<le> n" and "n < 2 ^ 31"
  shows "interned (str_run h (luaS_init n sd) ops) \<and>
    (\<forall>a \<in> set (short_strings (str_run h (luaS_init n sd) ops)).
       \<exists>bytes. str_bytes (str_run h (luaS_init n sd) ops) a = Some bytes \<and>
         length bytes \<le> LUAI_MAXSHORTLEN) \<and>
    (\<forall>a \<in> set (short_strings (str_run h (luaS_init n sd) ops)).
       \<forall>ops'. Free a \<notin> set ops' \<longrightarrow>
         a \<in> set (short_strings (str_run h (str_run h (luaS_init n sd) ops) ops')) \<and>
         str_bytes (str_run h (str_run h (luaS_init n sd) ops) ops') a =
           str_bytes (str_run h (luaS_init n sd) ops) a) \<and>
    (\<forall>bytes. length bytes \<le> LUAI_MAXSHORTLEN \<longrightarrow>
       (\<exists>a st'. luaS_newlstr h True (str_run h (luaS_init n sd) ops) bytes = Inr (a, st') \<and>
          a \<in> set (short_strings st') \<and> str_bytes st' a = Some bytes \<and>
          (\<forall>b \<in> set (short_strings (str_run h (luaS_init n sd) ops)).
             str_bytes (str_run h (luaS_init n sd) ops) b = Some bytes \<longrightarrow>
             a = b \<and> st' = str_run h (luaS_init n sd) ops) \<and>
          (\<forall>ops'. Free a \<notin> set ops' \<longrightarrow>
             interned (str_run h st' ops') \<and>
             a \<in> set (short_strings (str_run h st' ops')) \<and>
             str_bytes (str_run h st' ops') a = Some bytes \<and>
             (\<forall>mem. luaS_newlstr h mem (str_run h st' ops') bytes =
                Inr (a, str_run h st' ops')))))"
proof -
  let ?st = "str_run h (luaS_init n sd) ops"
  from assms have "str_inv h (luaS_init n sd)"
    by (rule luaS_init_inv)
  then have inv: "str_inv h ?st"
    by (rule str_run_inv)
  then have int: "interned ?st"
    by (rule str_inv_interned)
  have short: "\<forall>a \<in> set (short_strings ?st).
      \<exists>bytes. str_bytes ?st a = Some bytes \<and> length bytes \<le> LUAI_MAXSHORTLEN"
    using short_strings_short [OF inv] by blast
  have keep: "\<forall>a \<in> set (short_strings ?st). \<forall>ops'. Free a \<notin> set ops' \<longrightarrow>
      a \<in> set (short_strings (str_run h ?st ops')) \<and>
      str_bytes (str_run h ?st ops') a = str_bytes ?st a"
    using short_strings_keep [OF inv] by blast
  have new: "\<exists>a st'. luaS_newlstr h True ?st bytes = Inr (a, st') \<and>
      a \<in> set (short_strings st') \<and> str_bytes st' a = Some bytes \<and>
      (\<forall>b \<in> set (short_strings ?st). str_bytes ?st b = Some bytes \<longrightarrow> a = b \<and> st' = ?st) \<and>
      (\<forall>ops'. Free a \<notin> set ops' \<longrightarrow>
         interned (str_run h st' ops') \<and>
         a \<in> set (short_strings (str_run h st' ops')) \<and>
         str_bytes (str_run h st' ops') a = Some bytes \<and>
         (\<forall>mem. luaS_newlstr h mem (str_run h st' ops') bytes = Inr (a, str_run h st' ops')))"
    if len: "length bytes \<le> LUAI_MAXSHORTLEN" for bytes
  proof -
    from luaS_newlstr_short [OF inv len] obtain a st' where
      r: "luaS_newlstr h True ?st bytes = Inr (a, st')" and inv': "str_inv h st'"
      and a: "a \<in> set (short_strings st')" and b: "str_bytes st' a = Some bytes"
      and u: "\<forall>b \<in> set (short_strings ?st). str_bytes ?st b = Some bytes \<longrightarrow> a = b \<and> st' = ?st"
      by blast
    have later: "interned (str_run h st' ops') \<and>
        a \<in> set (short_strings (str_run h st' ops')) \<and>
        str_bytes (str_run h st' ops') a = Some bytes \<and>
        (\<forall>mem. luaS_newlstr h mem (str_run h st' ops') bytes = Inr (a, str_run h st' ops'))"
      if f: "Free a \<notin> set ops'" for ops'
    proof -
      from inv' have i: "str_inv h (str_run h st' ops')"
        by (rule str_run_inv)
      from short_strings_keep [OF inv' a f] b
      have k: "a \<in> set (short_strings (str_run h st' ops'))"
        "str_bytes (str_run h st' ops') a = Some bytes"
        by simp_all
      from i k have "luaS_newlstr h mem (str_run h st' ops') bytes = Inr (a, str_run h st' ops')"
        for mem
        by (rule luaS_newlstr_existing)
      with i k show ?thesis
        using str_inv_interned by blast
    qed
    from r a b u later show ?thesis by blast
  qed
  from int short keep new show ?thesis
    by (intro conjI allI impI) blast+
qed

theorem short_strings_interned_witness:
  "(1::nat) \<le> 2 \<and> (2::nat) < 2 ^ 31 \<and> length ''ab'' \<le> LUAI_MAXSHORTLEN \<and>
   Free 1 \<notin> set [NewLStr ''zz'' True, Resize 16, Free 3, NewLStr ''cd'' False] \<and>
   short_strings (str_run example_hash (luaS_init 2 5)
     [NewLStr ''ab'' True, NewLStr ''cd'' True, NewLStr ''xyz'' True, NewLStr ''ab'' True,
      NewLStr (replicate 41 CHR ''a'') True, NewLStr ''q'' False, NewLStr ''wxyz'' True,
      Free 2, Resize 8, NewLStr ''cd'' True]) = [1, 3, 5, 6] \<and>
   interned (str_run example_hash (luaS_init 2 5)
     [NewLStr ''ab'' True, NewLStr ''cd'' True, NewLStr ''xyz'' True, NewLStr ''ab'' True,
      NewLStr (replicate 41 CHR ''a'') True, NewLStr ''q'' False, NewLStr ''wxyz'' True,
      Free 2, Resize 8, NewLStr ''cd'' True]) \<and>
   (\<exists>a st'. luaS_newlstr example_hash True (str_run example_hash (luaS_init 2 5)
     [NewLStr ''ab'' True, NewLStr ''cd'' True, NewLStr ''xyz'' True, NewLStr ''ab'' True,
      NewLStr (replicate 41 CHR ''a'') True, NewLStr ''q'' False, NewLStr ''wxyz'' True,
      Free 2, Resize 8, NewLStr ''cd'' True]) ''ab'' = Inr (a, st') \<and>
      a \<in> set (short_strings st') \<and> str_bytes st' a = Some ''ab'' \<and>
      luaS_newlstr example_hash False
        (str_run example_hash st' [NewLStr ''zz'' True, Resize 16, Free 3, NewLStr ''cd'' False])
        ''ab'' =
      Inr (a, str_run example_hash st'
        [NewLStr ''zz'' True, Resize 16, Free 3, NewLStr ''cd'' False]))"
proof -
  let ?ops = "[NewLStr ''ab'' True, NewLStr ''cd'' True, NewLStr ''xyz'' True, NewLStr ''ab'' True,
      NewLStr (replicate 41 CHR ''a'') True, NewLStr ''q'' False, NewLStr ''wxyz'' True,
      Free 2, Resize 8, NewLStr ''cd'' True]"
  let ?ops' = "[NewLStr ''zz'' True, Resize 16, Free 3, NewLStr ''cd'' False]"
  let ?st = "str_run example_hash (luaS_init 2 5) ?ops"
  have n: "(1::nat) \<le> 2" "(2::nat) < 2 ^ 31"
    by simp_all
  have l: "length ''ab'' \<le> LUAI_MAXSHORTLEN"
    by (simp add: LUAI_MAXSHORTLEN_def)
  have v: "short_strings ?st = [1, 3, 5, 6]"
    by code_simp
  have w: "map_sum id fst (luaS_newlstr example_hash True ?st ''ab'') = Inr 1"
    by code_simp
  have f: "Free 1 \<notin> set ?ops'"
    by simp
  note t = short_strings_interned [of 2 example_hash 5 ?ops, OF n]
  from t have i: "interned ?st"
    by (rule conjunct1)
  note c = t [THEN conjunct2, THEN conjunct2, THEN conjunct2, rule_format, OF l]
  from c obtain a where "\<exists>st'. luaS_newlstr example_hash True ?st ''ab'' = Inr (a, st') \<and>
      a \<in> set (short_strings st') \<and> str_bytes st' a = Some ''ab'' \<and>
      (\<forall>b \<in> set (short_strings ?st). str_bytes ?st b = Some ''ab'' \<longrightarrow> a = b \<and> st' = ?st) \<and>
      (\<forall>ops'. Free a \<notin> set ops' \<longrightarrow>
         interned (str_run example_hash st' ops') \<and>
         a \<in> set (short_strings (str_run example_hash st' ops')) \<and>
         str_bytes (str_run example_hash st' ops') a = Some ''ab'' \<and>
         (\<forall>mem. luaS_newlstr example_hash mem (str_run example_hash st' ops') ''ab'' =
            Inr (a, str_run example_hash st' ops')))" ..
  then obtain st' where all: "luaS_newlstr example_hash True ?st ''ab'' = Inr (a, st') \<and>
      a \<in> set (short_strings st') \<and> str_bytes st' a = Some ''ab'' \<and>
      (\<forall>b \<in> set (short_strings ?st). str_bytes ?st b = Some ''ab'' \<longrightarrow> a = b \<and> st' = ?st) \<and>
      (\<forall>ops'. Free a \<notin> set ops' \<longrightarrow>
         interned (str_run example_hash st' ops') \<and>
         a \<in> set (short_strings (str_run example_hash st' ops')) \<and>
         str_bytes (str_run example_hash st' ops') a = Some ''ab'' \<and>
         (\<forall>mem. luaS_newlstr example_hash mem (str_run example_hash st' ops') ''ab'' =
            Inr (a, str_run example_hash st' ops')))" ..
  note r = all [THEN conjunct1]
  note a1 = all [THEN conjunct2, THEN conjunct1]
  note a2 = all [THEN conjunct2, THEN conjunct2, THEN conjunct1]
  note k = all [THEN conjunct2, THEN conjunct2, THEN conjunct2, THEN conjunct2, rule_format]
  from w have "a = 1"
    unfolding r by simp
  then have "Free a \<notin> set ?ops'"
    by simp
  then have m: "luaS_newlstr example_hash False (str_run example_hash st' ?ops') ''ab'' =
      Inr (a, str_run example_hash st' ?ops')"
    by (rule k [THEN conjunct2, THEN conjunct2, THEN conjunct2, rule_format])
  from r a1 a2 m have "\<exists>a st'. luaS_newlstr example_hash True ?st ''ab'' = Inr (a, st') \<and>
      a \<in> set (short_strings st') \<and> str_bytes st' a = Some ''ab'' \<and>
      luaS_newlstr example_hash False (str_run example_hash st' ?ops') ''ab'' =
      Inr (a, str_run example_hash st' ?ops')"
    by (intro exI conjI)
  with n l f v i show ?thesis
    by (simp only: simp_thms)
qed

end
